theory Spec2Isabelle
  imports Complex_Main "HOL-Library.Multiset"
begin

section \<open>JavaScript numbers\<close>

text \<open>
  A JavaScript number is an IEEE binary64 value. The model keeps the special values
  (\<open>NaN\<close>, the two infinities, the negative zero) apart, because division by zero
  and \<^verbatim>\<open>isNaN\<close> depend on them, and carries a finite value as a real number.
  \<open>Num 0\<close> is the positive zero. The operations \<open>js_mul\<close>, \<open>js_div\<close>,
  \<open>js_add\<close> and \<open>js_sub\<close> give the exact result on finite operands; \<open>round64\<close>
  below rounds a real number to binary64, and \<open>mul64\<close>, \<open>div64\<close>, \<open>add64\<close>
  and \<open>sub64\<close> are the exact result, rounded. The table and the dashboard, which
  compute with lengths, page sizes and sums of amounts, are modelled with the exact
  operations; the payment estimate of the loan form, which divides and raises to a
  power, with the rounded ones.
\<close>

datatype jsnum = NaN | PosInf | NegInf | NegZero | Num real

fun is_inf :: "jsnum \<Rightarrow> bool" where
  "is_inf PosInf = True"
| "is_inf NegInf = True"
| "is_inf _ = False"

fun is_zero :: "jsnum \<Rightarrow> bool" where
  "is_zero NegZero = True"
| "is_zero (Num x) = (x = 0)"
| "is_zero _ = False"

text \<open>The sign bit of a value that is not \<open>NaN\<close>, and the value of a finite one.\<close>

fun sign_bit :: "jsnum \<Rightarrow> bool" where
  "sign_bit NegInf = True"
| "sign_bit NegZero = True"
| "sign_bit (Num x) = (x < 0)"
| "sign_bit _ = False"

fun val :: "jsnum \<Rightarrow> real" where
  "val (Num x) = x"
| "val _ = 0"

definition js_inf :: "bool \<Rightarrow> jsnum" where
  "js_inf neg = (if neg then NegInf else PosInf)"

definition js_zero :: "bool \<Rightarrow> jsnum" where
  "js_zero neg = (if neg then NegZero else Num 0)"

text \<open>A finite result \<open>v\<close> whose sign, when it is a zero, is \<open>neg\<close>.\<close>

definition fin :: "real \<Rightarrow> bool \<Rightarrow> jsnum" where
  "fin v neg = (if v = 0 then js_zero neg else Num v)"

text \<open>\<^verbatim>\<open>x * y\<close>, \<^verbatim>\<open>x / y\<close>, \<^verbatim>\<open>x + y\<close>, \<^verbatim>\<open>-x\<close>, \<^verbatim>\<open>x - y\<close> on numbers.\<close>

definition js_mul :: "jsnum \<Rightarrow> jsnum \<Rightarrow> jsnum" where
  "js_mul x y =
     (if x = NaN \<or> y = NaN then NaN
      else if is_inf x \<or> is_inf y
        then (if is_zero x \<or> is_zero y then NaN else js_inf (sign_bit x \<noteq> sign_bit y))
      else fin (val x * val y) (sign_bit x \<noteq> sign_bit y))"

definition js_div :: "jsnum \<Rightarrow> jsnum \<Rightarrow> jsnum" where
  "js_div x y =
     (if x = NaN \<or> y = NaN then NaN
      else if is_inf x
        then (if is_inf y then NaN else js_inf (sign_bit x \<noteq> sign_bit y))
      else if is_inf y then js_zero (sign_bit x \<noteq> sign_bit y)
      else if is_zero y
        then (if is_zero x then NaN else js_inf (sign_bit x \<noteq> sign_bit y))
      else fin (val x / val y) (sign_bit x \<noteq> sign_bit y))"

definition js_add :: "jsnum \<Rightarrow> jsnum \<Rightarrow> jsnum" where
  "js_add x y =
     (if x = NaN \<or> y = NaN then NaN
      else if is_inf x then (if is_inf y \<and> x \<noteq> y then NaN else x)
      else if is_inf y then y
      else if is_zero x \<and> is_zero y
        then (if x = NegZero \<and> y = NegZero then NegZero else Num 0)
      else Num (val x + val y))"

fun js_neg :: "jsnum \<Rightarrow> jsnum" where
  "js_neg NaN = NaN"
| "js_neg PosInf = NegInf"
| "js_neg NegInf = PosInf"
| "js_neg NegZero = Num 0"
| "js_neg (Num x) = (if x = 0 then NegZero else Num (- x))"

definition js_sub :: "jsnum \<Rightarrow> jsnum \<Rightarrow> jsnum" where
  "js_sub x y = js_add x (js_neg y)"

text \<open>
  \<^verbatim>\<open>x < y\<close> on numbers (false as soon as one is \<open>NaN\<close>; the two zeros are equal),
  and \<^verbatim>\<open>x === y\<close> on numbers.
\<close>

definition num_lt :: "jsnum \<Rightarrow> jsnum \<Rightarrow> bool" where
  "num_lt x y =
     (if x = NaN \<or> y = NaN then False
      else if x = PosInf \<or> y = NegInf then False
      else if x = NegInf \<or> y = PosInf then True
      else val x < val y)"

definition num_eq :: "jsnum \<Rightarrow> jsnum \<Rightarrow> bool" where
  "num_eq x y =
     (if x = NaN \<or> y = NaN then False
      else if is_inf x \<or> is_inf y then x = y
      else val x = val y)"

fun isNaN :: "jsnum \<Rightarrow> bool" where
  "isNaN NaN = True"
| "isNaN _ = False"

text \<open>\<^verbatim>\<open>Number.isFinite\<close>.\<close>

definition is_finite :: "jsnum \<Rightarrow> bool" where
  "is_finite x = (x \<noteq> NaN \<and> \<not> is_inf x)"

text \<open>\<^verbatim>\<open>Math.ceil\<close>: a result that is zero keeps the sign of its argument.\<close>

fun Math_ceil :: "jsnum \<Rightarrow> jsnum" where
  "Math_ceil (Num x) = fin (of_int \<lceil>x\<rceil>) (x < 0)"
| "Math_ceil x = x"

text \<open>
  Rounding to binary64, to nearest, ties to even. A binary64 value is an integer
  multiple of \<open>2 ^ u\<close>, where \<open>u\<close> is 52 below the exponent of the value and at
  least -1074 (the subnormal values); a result whose magnitude reaches \<open>2 ^ 1024\<close> is
  an infinity, and a result that rounds to zero keeps the sign of the exact value.
\<close>

definition round_half_even :: "real \<Rightarrow> int" where
  "round_half_even y =
     (let f = \<lfloor>y\<rfloor>
      in if y - of_int f < 1 / 2 then f
         else if 1 / 2 < y - of_int f then f + 1
         else if even f then f else f + 1)"

definition ulp_exponent :: "real \<Rightarrow> int" where
  "ulp_exponent x = max \<lfloor>log 2 \<bar>x\<bar>\<rfloor> (- 1022) - 52"

definition round64 :: "real \<Rightarrow> jsnum" where
  "round64 x =
     (let u = 2 powr of_int (ulp_exponent x);
          m = of_int (round_half_even (x / u)) * u
      in if 2 ^ 1024 \<le> \<bar>m\<bar> then js_inf (x < 0) else fin m (x < 0))"

text \<open>The rounding of an exact result: the zeros and the special values are kept.\<close>

definition rounded :: "jsnum \<Rightarrow> jsnum" where
  "rounded z = (case z of Num v \<Rightarrow> if v = 0 then z else round64 v | _ \<Rightarrow> z)"

text \<open>\<^verbatim>\<open>x * y\<close>, \<^verbatim>\<open>x / y\<close>, \<^verbatim>\<open>x + y\<close>, \<^verbatim>\<open>x - y\<close> in binary64.\<close>

definition mul64 :: "jsnum \<Rightarrow> jsnum \<Rightarrow> jsnum" where
  "mul64 x y = rounded (js_mul x y)"

definition div64 :: "jsnum \<Rightarrow> jsnum \<Rightarrow> jsnum" where
  "div64 x y = rounded (js_div x y)"

definition add64 :: "jsnum \<Rightarrow> jsnum \<Rightarrow> jsnum" where
  "add64 x y = rounded (js_add x y)"

definition sub64 :: "jsnum \<Rightarrow> jsnum \<Rightarrow> jsnum" where
  "sub64 x y = rounded (js_sub x y)"

text \<open>A real number whose magnitude lies between \<open>2 ^ - k\<close> and \<open>2 ^ k\<close>.\<close>

definition magnitude_within :: "nat \<Rightarrow> real \<Rightarrow> bool" where
  "magnitude_within k v = (1 / 2 ^ k \<le> \<bar>v\<bar> \<and> \<bar>v\<bar> \<le> 2 ^ k)"


section \<open>JavaScript values\<close>

text \<open>
  The primitive values the records of this application hold and its forms deliver.
  A string is a list of code units; the model has the code units below 256.
\<close>

datatype jsval = JUndefined | JNull | JBool bool | JNum jsnum | JStr string

definition code_unit :: "char \<Rightarrow> nat" where
  "code_unit c = of_char c"

text \<open>\<^verbatim>\<open>s < t\<close> on two strings: by code units, a proper prefix first.\<close>

fun str_lt :: "string \<Rightarrow> string \<Rightarrow> bool" where
  "str_lt [] [] = False"
| "str_lt [] (y # ys) = True"
| "str_lt (x # xs) [] = False"
| "str_lt (x # xs) (y # ys) = (if x = y then str_lt xs ys else code_unit x < code_unit y)"

text \<open>
  \<^verbatim>\<open>StringToNumber\<close>: white space is trimmed, the empty string is 0, then a
  hexadecimal, octal or binary literal without sign, or an optional sign followed by
  \<^verbatim>\<open>Infinity\<close> or by a decimal literal with an optional fraction and exponent;
  anything else is \<open>NaN\<close>. The value of a literal is rounded to binary64.
\<close>

definition is_ws :: "char \<Rightarrow> bool" where
  "is_ws c = (code_unit c \<in> {9, 10, 11, 12, 13, 32, 160})"

definition trim :: "string \<Rightarrow> string" where
  "trim s = rev (dropWhile is_ws (rev (dropWhile is_ws s)))"

definition radix_digit :: "nat \<Rightarrow> char \<Rightarrow> nat option" where
  "radix_digit b c =
     (let n = code_unit c;
          d = (if 48 \<le> n \<and> n \<le> 57 then Some (n - 48)
               else if 97 \<le> n \<and> n \<le> 102 then Some (n - 87)
               else if 65 \<le> n \<and> n \<le> 70 then Some (n - 55)
               else None)
      in case d of None \<Rightarrow> None | Some v \<Rightarrow> if v < b then Some v else None)"

definition all_digits :: "nat \<Rightarrow> string \<Rightarrow> bool" where
  "all_digits b s = list_all (\<lambda>c. radix_digit b c \<noteq> None) s"

definition digits_value :: "nat \<Rightarrow> string \<Rightarrow> nat" where
  "digits_value b s =
     foldl (\<lambda>n c. case radix_digit b c of None \<Rightarrow> b * n | Some v \<Rightarrow> b * n + v) 0 s"

definition parse_nondecimal :: "string \<Rightarrow> nat option" where
  "parse_nondecimal t =
     (case t of
        z # p # ds \<Rightarrow>
          if z \<noteq> CHR ''0'' \<or> ds = [] then None
          else if (p = CHR ''x'' \<or> p = CHR ''X'') \<and> all_digits 16 ds then Some (digits_value 16 ds)
          else if (p = CHR ''o'' \<or> p = CHR ''O'') \<and> all_digits 8 ds then Some (digits_value 8 ds)
          else if (p = CHR ''b'' \<or> p = CHR ''B'') \<and> all_digits 2 ds then Some (digits_value 2 ds)
          else None
      | _ \<Rightarrow> None)"

definition parse_mantissa :: "string \<Rightarrow> real option" where
  "parse_mantissa m =
     (let ip = takeWhile (\<lambda>c. radix_digit 10 c \<noteq> None) m;
          rest = dropWhile (\<lambda>c. radix_digit 10 c \<noteq> None) m
      in case rest of
           [] \<Rightarrow> if ip = [] then None else Some (real (digits_value 10 ip))
         | d # fp \<Rightarrow>
             if d = CHR ''.'' \<and> all_digits 10 fp \<and> (ip \<noteq> [] \<or> fp \<noteq> [])
             then Some (real (digits_value 10 (ip @ fp)) / 10 ^ length fp)
             else None)"

definition parse_exponent :: "string \<Rightarrow> int option" where
  "parse_exponent e =
     (let (neg, ds) = (case e of
                         [] \<Rightarrow> (False, [])
                       | c # r \<Rightarrow> if c = CHR ''-'' then (True, r)
                                  else if c = CHR ''+'' then (False, r) else (False, e))
      in if ds = [] \<or> \<not> all_digits 10 ds then None
         else Some (if neg then - int (digits_value 10 ds) else int (digits_value 10 ds)))"

definition parse_unsigned_decimal :: "string \<Rightarrow> real option" where
  "parse_unsigned_decimal u =
     (let m = takeWhile (\<lambda>c. c \<noteq> CHR ''e'' \<and> c \<noteq> CHR ''E'') u;
          r = dropWhile (\<lambda>c. c \<noteq> CHR ''e'' \<and> c \<noteq> CHR ''E'') u
      in case parse_mantissa m of
           None \<Rightarrow> None
         | Some v \<Rightarrow>
             (case r of
                [] \<Rightarrow> Some v
              | _ # e \<Rightarrow>
                  (case parse_exponent e of
                     None \<Rightarrow> None
                   | Some k \<Rightarrow> Some (if 0 \<le> k then v * 10 ^ nat k else v / 10 ^ nat (- k)))))"

definition StringToNumber :: "string \<Rightarrow> jsnum" where
  "StringToNumber s =
     (let t = trim s in
      if t = [] then Num 0
      else case parse_nondecimal t of
        Some n \<Rightarrow> rounded (Num (real n))
      | None \<Rightarrow>
          (let (neg, u) = (case t of
                             [] \<Rightarrow> (False, [])
                           | c # r \<Rightarrow> if c = CHR ''-'' then (True, r)
                                      else if c = CHR ''+'' then (False, r) else (False, t))
           in if u = ''Infinity'' then js_inf neg
              else case parse_unsigned_decimal u of
                None \<Rightarrow> NaN
              | Some v \<Rightarrow> rounded (fin (if neg then - v else v) neg)))"

text \<open>\<^verbatim>\<open>ToNumber\<close>, \<^verbatim>\<open>ToBoolean\<close> and \<^verbatim>\<open>a || b\<close>.\<close>

fun ToNumber :: "jsval \<Rightarrow> jsnum" where
  "ToNumber JUndefined = NaN"
| "ToNumber JNull = Num 0"
| "ToNumber (JBool b) = Num (if b then 1 else 0)"
| "ToNumber (JNum n) = n"
| "ToNumber (JStr s) = StringToNumber s"

fun ToBoolean :: "jsval \<Rightarrow> bool" where
  "ToBoolean JUndefined = False"
| "ToBoolean JNull = False"
| "ToBoolean (JBool b) = b"
| "ToBoolean (JNum n) = (\<not> is_zero n \<and> n \<noteq> NaN)"
| "ToBoolean (JStr s) = (s \<noteq> [])"

definition js_or :: "jsval \<Rightarrow> jsval \<Rightarrow> jsval" where
  "js_or a b = (if ToBoolean a then a else b)"

text \<open>
  \<^verbatim>\<open>a < b\<close> on primitive values: two strings are compared as strings, anything
  else as numbers. \<^verbatim>\<open>a > b\<close> is \<^verbatim>\<open>b < a\<close>.
\<close>

definition js_lt :: "jsval \<Rightarrow> jsval \<Rightarrow> bool" where
  "js_lt a b =
     (case (a, b) of
        (JStr s, JStr t) \<Rightarrow> str_lt s t
      | _ \<Rightarrow> num_lt (ToNumber a) (ToNumber b))"

definition js_gt :: "jsval \<Rightarrow> jsval \<Rightarrow> bool" where
  "js_gt a b = js_lt b a"

text \<open>\<^verbatim>\<open>value == null\<close> holds for \<^verbatim>\<open>null\<close> and \<^verbatim>\<open>undefined\<close> only.\<close>

fun is_nullish :: "jsval \<Rightarrow> bool" where
  "is_nullish JUndefined = True"
| "is_nullish JNull = True"
| "is_nullish _ = False"

text \<open>
  \<^verbatim>\<open>String(value)\<close>. The digits of a number depend on its binary64 value, so
  the conversion of numbers is a parameter.
\<close>

fun js_String :: "(jsnum \<Rightarrow> string) \<Rightarrow> jsval \<Rightarrow> string" where
  "js_String numstr JUndefined = ''undefined''"
| "js_String numstr JNull = ''null''"
| "js_String numstr (JBool b) = (if b then ''true'' else ''false'')"
| "js_String numstr (JNum n) = numstr n"
| "js_String numstr (JStr s) = s"

text \<open>
  \<^verbatim>\<open>toLowerCase\<close> on code units below 256: the letters A-Z and the upper-case
  letters of Latin-1 (192-222 but the multiplication sign 215) move up by 32.
\<close>

definition lower_unit :: "char \<Rightarrow> char" where
  "lower_unit c =
     (let n = code_unit c
      in if (65 \<le> n \<and> n \<le> 90) \<or> (192 \<le> n \<and> n \<le> 222 \<and> n \<noteq> 215)
         then char_of (n + 32) else c)"

definition toLowerCase :: "string \<Rightarrow> string" where
  "toLowerCase s = map lower_unit s"

text \<open>\<^verbatim>\<open>s.includes(t)\<close>: \<open>t\<close> occurs in \<open>s\<close> at some position.\<close>

fun starts_with :: "string \<Rightarrow> string \<Rightarrow> bool" where
  "starts_with s [] = True"
| "starts_with [] (c # t) = False"
| "starts_with (x # s) (c # t) = (x = c \<and> starts_with s t)"

fun str_includes :: "string \<Rightarrow> string \<Rightarrow> bool" where
  "str_includes [] t = (t = [])"
| "str_includes (x # s) t = (starts_with (x # s) t \<or> str_includes s t)"

text \<open>
  \<^verbatim>\<open>Math.pow\<close>, case by case as ECMAScript's \<^verbatim>\<open>Number::exponentiate\<close> lists
  them. In the last case, a finite non-zero base and a finite non-zero exponent, the
  result is, in the standard's words, an implementation-approximated value of the
  power: the model takes
  the engine's function for this case as a parameter \<open>pw\<close>, from the two real
  operands to the number returned.
\<close>

type_synonym pow_impl = "real \<Rightarrow> real \<Rightarrow> jsnum"

definition is_integral :: "real \<Rightarrow> bool" where
  "is_integral x = (of_int \<lfloor>x\<rfloor> = x)"

definition is_odd_integer :: "jsnum \<Rightarrow> bool" where
  "is_odd_integer x = (\<not> is_inf x \<and> is_integral (val x) \<and> odd \<lfloor>val x\<rfloor>)"

definition real_pow :: "real \<Rightarrow> real \<Rightarrow> real" where
  "real_pow b e =
     (if is_integral e
      then (if 0 \<le> e then b ^ nat \<lfloor>e\<rfloor> else 1 / b ^ nat (- \<lfloor>e\<rfloor>))
      else b powr e)"

definition Math_pow :: "pow_impl \<Rightarrow> jsnum \<Rightarrow> jsnum \<Rightarrow> jsnum" where
  "Math_pow pw base exponent =
     (if exponent = NaN then NaN
      else if is_zero exponent then Num 1
      else if base = NaN then NaN
      else if base = PosInf then (if sign_bit exponent then Num 0 else PosInf)
      else if base = NegInf then
        (if sign_bit exponent
         then (if is_odd_integer exponent then NegZero else Num 0)
         else (if is_odd_integer exponent then NegInf else PosInf))
      else if is_zero base \<and> \<not> sign_bit base then (if sign_bit exponent then PosInf else Num 0)
      else if is_zero base then
        (if sign_bit exponent
         then (if is_odd_integer exponent then NegInf else PosInf)
         else (if is_odd_integer exponent then NegZero else Num 0))
      else if is_inf exponent then
        (if \<bar>val base\<bar> = 1 then NaN
         else if (1 < \<bar>val base\<bar>) = (exponent = PosInf) then PosInf else Num 0)
      else if val base < 0 \<and> \<not> is_integral (val exponent) then NaN
      else pw (val base) (val exponent))"

text \<open>
  One such function: the exact power, correctly rounded. And what the estimate
  below needs of any such function: for a base between 1 and 2 and a whole exponent
  from 1 to 1000, a finite result within a relative error of \<open>10 ^ - 9\<close> of the
  exact power.
\<close>

definition pow_correctly_rounded :: pow_impl where
  "pow_correctly_rounded b e = rounded (Num (real_pow b e))"

definition pow_accurate :: "pow_impl \<Rightarrow> bool" where
  "pow_accurate pw =
     (\<forall>b n. 1 \<le> b \<and> b \<le> 2 \<and> 0 < n \<and> n \<le> 1000 \<longrightarrow>
        pw b (real n) = Num (val (pw b (real n)))
        \<and> \<bar>val (pw b (real n)) - b ^ n\<bar> \<le> b ^ n / 10 ^ 9)"


section \<open>The tabular view: sort state\<close>

text \<open>
  \<^verbatim>\<open>src/components/DataTable.tsx\<close> keeps the active sort as
  \<^verbatim>\<open>{ key: string; direction: 'asc' | 'desc' } | null\<close>; a column
  descriptor (\<^verbatim>\<open>src/types/index.ts\<close>, \<^verbatim>\<open>Column<T>\<close>) has a key, a header, an
  optional renderer and an optional \<^verbatim>\<open>sortable\<close> flag. The renderer's output is
  left as a type parameter.
\<close>

datatype direction = Asc | Desc

record sort_config =
  key :: string
  direction :: direction

record ('r, 'node) column =
  col_key :: string
  header :: string
  render :: "('r \<Rightarrow> 'node) option"
  sortable :: "bool option"

text \<open>
  \<^verbatim>\<open>handleSort\<close> (lines 68-75): the updater passed to \<^verbatim>\<open>setSortConfig\<close>.
\<close>

definition handleSort :: "string \<Rightarrow> sort_config option \<Rightarrow> sort_config option" where
  "handleSort k current =
     (case current of
        None \<Rightarrow> Some \<lparr>key = k, direction = Asc\<rparr>
      | Some c \<Rightarrow>
          if key c = k
          then (if direction c = Asc then Some \<lparr>key = k, direction = Desc\<rparr> else None)
          else Some \<lparr>key = k, direction = Asc\<rparr>)"

text \<open>
  The header's click handler (line 102):
  \<^verbatim>\<open>onClick={() => column.sortable && handleSort(String(column.key))}\<close>.
  An absent \<^verbatim>\<open>sortable\<close> is falsy.
\<close>

definition headerClick ::
  "('r, 'node) column \<Rightarrow> sort_config option \<Rightarrow> sort_config option" where
  "headerClick c current =
     (if sortable c = Some True then handleSort (col_key c) current else current)"


section \<open>The tabular view: filter and sort\<close>

text \<open>
  A record of the table (\<^verbatim>\<open>T extends Record<string, unknown>\<close>) is a list of
  properties; reading a property that is absent gives \<^verbatim>\<open>undefined\<close>.
\<close>

type_synonym row = "(string \<times> jsval) list"

definition get_prop :: "row \<Rightarrow> string \<Rightarrow> jsval" where
  "get_prop item k = (case map_of item k of None \<Rightarrow> JUndefined | Some v \<Rightarrow> v)"

text \<open>
  \<^verbatim>\<open>filteredData\<close> (lines 39-48). \<^verbatim>\<open>!searchQuery\<close> holds for the empty string
  only.
\<close>

definition filteredData ::
  "(jsnum \<Rightarrow> string) \<Rightarrow> row list \<Rightarrow> (row, 'node) column list \<Rightarrow> string \<Rightarrow> row list" where
  "filteredData numstr data columns searchQuery =
     (if searchQuery = [] then data
      else filter (\<lambda>item.
             list_ex (\<lambda>column.
               (let v = get_prop item (col_key column)
                in if is_nullish v then False
                   else str_includes (toLowerCase (js_String numstr v)) (toLowerCase searchQuery)))
             columns) data)"

text \<open>
  The filter as the specification words it: a record is retained when at least one
  column's value is neither \<^verbatim>\<open>null\<close> nor \<^verbatim>\<open>undefined\<close> and its lower-cased
  string form contains the lower-cased search text as a substring.
\<close>

definition contains_substring :: "string \<Rightarrow> string \<Rightarrow> bool" where
  "contains_substring s t = (\<exists>u w. s = u @ t @ w)"

definition spec_retained ::
  "(jsnum \<Rightarrow> string) \<Rightarrow> (row, 'node) column list \<Rightarrow> string \<Rightarrow> row \<Rightarrow> bool" where
  "spec_retained numstr columns T item =
     (\<exists>c \<in> set columns.
        \<not> is_nullish (get_prop item (col_key c))
        \<and> contains_substring (toLowerCase (js_String numstr (get_prop item (col_key c))))
             (toLowerCase T))"

text \<open>
  The comparator handed to \<^verbatim>\<open>sort\<close> (lines 53-61).
\<close>

definition compare_rows :: "sort_config \<Rightarrow> row \<Rightarrow> row \<Rightarrow> jsnum" where
  "compare_rows sortConfig a b =
     (let aValue = get_prop a (key sortConfig);
          bValue = get_prop b (key sortConfig)
      in if is_nullish aValue then Num 1
         else if is_nullish bValue then Num (- 1)
         else if js_lt aValue bValue then (if direction sortConfig = Asc then Num (- 1) else Num 1)
         else if js_gt aValue bValue then (if direction sortConfig = Asc then Num 1 else Num (- 1))
         else Num 0)"

text \<open>
  \<^verbatim>\<open>Array.prototype.sort(comparefn)\<close>. ECMAScript requires the sort to be stable
  and fixes its result when \<^verbatim>\<open>comparefn\<close> is a consistent comparator; otherwise
  the order is left to the engine. The comparator above is not consistent as soon
  as a record lacks the value: it answers 1 for such a record against itself. The
  model is the stable insertion sort: each element in turn moves towards the front
  past the elements it has to precede. Engines differ in how they put that
  question for a later element \<open>x\<close> and an earlier element \<open>y\<close>: as
  \<^verbatim>\<open>comparefn(x, y) < 0\<close> (\<open>LaterFirst\<close>) or as \<^verbatim>\<open>comparefn(y, x) > 0\<close>
  (\<open>EarlierFirst\<close>), so this is a parameter. A result \<open>NaN\<close> counts as 0 in
  both.
\<close>

datatype call_order = LaterFirst | EarlierFirst

definition goes_before :: "call_order \<Rightarrow> ('a \<Rightarrow> 'a \<Rightarrow> jsnum) \<Rightarrow> 'a \<Rightarrow> 'a \<Rightarrow> bool" where
  "goes_before ord comparefn x y =
     (case ord of
        LaterFirst \<Rightarrow> num_lt (comparefn x y) (Num 0)
      | EarlierFirst \<Rightarrow> num_lt (Num 0) (comparefn y x))"

text \<open>
  The sorted prefix is kept with its last element first; \<open>insert_back\<close> moves
  \<open>x\<close> from the end towards the front.
\<close>

fun insert_back :: "('a \<Rightarrow> 'a \<Rightarrow> bool) \<Rightarrow> 'a \<Rightarrow> 'a list \<Rightarrow> 'a list" where
  "insert_back before x [] = [x]"
| "insert_back before x (y # ys) =
     (if before x y then y # insert_back before x ys else x # y # ys)"

definition Array_sort :: "call_order \<Rightarrow> ('a \<Rightarrow> 'a \<Rightarrow> jsnum) \<Rightarrow> 'a list \<Rightarrow> 'a list" where
  "Array_sort ord comparefn xs =
     rev (foldl (\<lambda>acc x. insert_back (goes_before ord comparefn) x acc) [] xs)"

text \<open>\<^verbatim>\<open>sortedData\<close> (lines 51-62).\<close>

definition sortedData :: "call_order \<Rightarrow> row list \<Rightarrow> sort_config option \<Rightarrow> row list" where
  "sortedData ord filtered sortConfig =
     (case sortConfig of
        None \<Rightarrow> filtered
      | Some c \<Rightarrow> Array_sort ord (compare_rows c) filtered)"


section \<open>The tabular view: pagination\<close>

text \<open>
  \<^verbatim>\<open>Array.prototype.slice(start, end)\<close> for integer arguments: a negative index
  counts from the end, both are clamped to the array, and the result is empty when
  the end does not lie after the start.
\<close>

definition slice :: "'a list \<Rightarrow> int \<Rightarrow> int \<Rightarrow> 'a list" where
  "slice xs start end' =
     (let len = int (length xs);
          k = (if start < 0 then max (len + start) 0 else min start len);
          final = (if end' < 0 then max (len + end') 0 else min end' len)
      in take (nat (final - k)) (drop (nat k) xs))"

text \<open>
  The \<^verbatim>\<open>pageSize\<close> prop defaults to 10 (line 31). The page size and the page
  index are integers: the state starts at 1 and the pager moves it by one.
  Lines 65-66:
  \<^verbatim>\<open>const totalPages = Math.ceil(sortedData.length / pageSize);\<close>
  \<^verbatim>\<open>const paginatedData = sortedData.slice((currentPage - 1) * pageSize, currentPage * pageSize);\<close>
\<close>

definition pageSize_of :: "int option \<Rightarrow> int" where
  "pageSize_of p = (case p of None \<Rightarrow> 10 | Some n \<Rightarrow> n)"

definition totalPages :: "'a list \<Rightarrow> int \<Rightarrow> jsnum" where
  "totalPages rows pageSize =
     Math_ceil (js_div (Num (real (length rows))) (Num (real_of_int pageSize)))"

definition paginatedData :: "'a list \<Rightarrow> int \<Rightarrow> int \<Rightarrow> 'a list" where
  "paginatedData rows pageSize page =
     slice rows ((page - 1) * pageSize) (page * pageSize)"

text \<open>
  The table body (lines 128-182): the empty-state placeholder when the page has no
  record, one row per record otherwise.
\<close>

datatype 'a tbody = EmptyState | Rows "'a list"

definition tbody_of :: "'a list \<Rightarrow> 'a tbody" where
  "tbody_of page = (if length page = 0 then EmptyState else Rows page)"

text \<open>
  The component's local state (lines 33-36) and the derivation of the body from
  the props and the state, as the component function computes it on every render.
  The search box calls \<^verbatim>\<open>setSearchQuery\<close> and the pager calls
  \<^verbatim>\<open>setCurrentPage\<close>; nothing else writes the page index, and new props leave
  the state as it is.
\<close>

record table_state =
  searchQuery :: string
  sortConfig :: "sort_config option"
  currentPage :: int
  openDropdown :: "string option"

definition initial_state :: table_state where
  "initial_state = \<lparr>searchQuery = [], sortConfig = None, currentPage = 1, openDropdown = None\<rparr>"

definition setSearchQuery :: "string \<Rightarrow> table_state \<Rightarrow> table_state" where
  "setSearchQuery q st = st\<lparr>searchQuery := q\<rparr>"

definition setCurrentPage :: "int \<Rightarrow> table_state \<Rightarrow> table_state" where
  "setCurrentPage p st = st\<lparr>currentPage := p\<rparr>"

definition DataTable_body ::
  "call_order \<Rightarrow> (jsnum \<Rightarrow> string) \<Rightarrow> row list \<Rightarrow> (row, 'node) column list \<Rightarrow> int option
     \<Rightarrow> table_state \<Rightarrow> row tbody" where
  "DataTable_body ord numstr data columns pageSize st =
     (let filtered = filteredData numstr data columns (searchQuery st);
          sorted = sortedData ord filtered (sortConfig st)
      in tbody_of (paginatedData sorted (pageSize_of pageSize) (currentPage st)))"


section \<open>The loan form's payment estimate\<close>

text \<open>
  \<^verbatim>\<open>src/pages/LoanApplicationsPage.tsx\<close>, lines 78-89. The four watched values
  are what the form library holds for the fields: the value of the default record
  (a number, or nothing) until the user edits the field, and from then on the text
  of the input or of the selected option, a string; this is why the validation
  schema converts with \<^verbatim>\<open>z.coerce.number()\<close>. The arithmetic operators convert
  their operands with \<^verbatim>\<open>ToNumber\<close> and round their result to binary64;
  \<open>pw\<close> is the engine's \<^verbatim>\<open>Math.pow\<close> on finite operands.
\<close>

definition calculatePayment ::
  "pow_impl \<Rightarrow> jsval \<Rightarrow> jsval \<Rightarrow> jsval \<Rightarrow> jsval \<Rightarrow> jsnum" where
  "calculatePayment pw loanAmount downPayment interestRate termMonths =
     (let principal = sub64 (ToNumber loanAmount) (ToNumber downPayment);
          monthlyRate = div64 (div64 (ToNumber interestRate) (Num 100)) (Num 12)
      in if num_eq monthlyRate (Num 0) then div64 principal (ToNumber termMonths)
         else
           (let payment =
                  div64
                    (mul64 (mul64 principal monthlyRate)
                       (Math_pow pw (add64 (Num 1) monthlyRate) (ToNumber termMonths)))
                    (sub64 (Math_pow pw (add64 (Num 1) monthlyRate) (ToNumber termMonths))
                       (Num 1))
            in if isNaN payment then Num 0 else payment))"

record watched =
  w_loanAmount :: jsval
  w_downPayment :: jsval
  w_interestRate :: jsval
  w_termMonths :: jsval

definition LoanForm_payment :: "pow_impl \<Rightarrow> watched \<Rightarrow> jsnum" where
  "LoanForm_payment pw w =
     calculatePayment pw
       (js_or (w_loanAmount w) (JNum (Num 0)))
       (js_or (w_downPayment w) (JNum (Num 0)))
       (js_or (w_interestRate w) (JNum (Num 6.5)))
       (js_or (w_termMonths w) (JNum (Num 360)))"


section \<open>The entity pages: mutations\<close>

text \<open>
  Each entity page (\<^verbatim>\<open>CustomersPage\<close>, \<^verbatim>\<open>PropertiesPage\<close>,
  \<^verbatim>\<open>LoanApplicationsPage\<close>) owns three pieces of modal state and three mutations.
  The query library calls a mutation's \<^verbatim>\<open>onSuccess\<close> when the promise of its
  \<^verbatim>\<open>mutationFn\<close> is fulfilled and its \<^verbatim>\<open>onError\<close> when it is rejected. The state
  below adds what the handlers act on: the cached list the table displays, the query
  keys handed to \<^verbatim>\<open>invalidateQueries\<close>, and the notifications emitted.
\<close>

datatype entity_page = CustomersPage | PropertiesPage | LoanApplicationsPage

datatype mutation = CreateMutation | UpdateMutation | DeleteMutation

datatype outcome = Fulfilled | Rejected

datatype toast = Toast_success string | Toast_error string

text \<open>
  A query key is an array of strings. \<open>listQueryKey\<close> is the key under which the
  page fetches and caches the list its table displays
  (\<^verbatim>\<open>useQuery({ queryKey: [...], queryFn: ...getAll })\<close>); \<open>invalidateKey\<close> is the
  key written in the \<^verbatim>\<open>onSuccess\<close> of each of the nine mutations.
\<close>

type_synonym query_key = "string list"

fun listQueryKey :: "entity_page \<Rightarrow> query_key" where
  "listQueryKey CustomersPage = [''customers'']"
| "listQueryKey PropertiesPage = [''properties'']"
| "listQueryKey LoanApplicationsPage = [''loanApplications'']"

fun invalidateKey :: "entity_page \<Rightarrow> mutation \<Rightarrow> query_key" where
  "invalidateKey CustomersPage CreateMutation = [''customers'']"
| "invalidateKey CustomersPage UpdateMutation = [''customers'']"
| "invalidateKey CustomersPage DeleteMutation = [''customers'']"
| "invalidateKey PropertiesPage CreateMutation = [''properties'']"
| "invalidateKey PropertiesPage UpdateMutation = [''properties'']"
| "invalidateKey PropertiesPage DeleteMutation = [''properties'']"
| "invalidateKey LoanApplicationsPage CreateMutation = [''loanApplications'']"
| "invalidateKey LoanApplicationsPage UpdateMutation = [''loanApplications'']"
| "invalidateKey LoanApplicationsPage DeleteMutation = [''loanApplications'']"

record 'e page_state =
  isCreateOpen :: bool
  editing :: "'e option"
  deleting :: "'e option"
  cachedList :: "'e list"
  invalidated :: "query_key list"
  toasts :: "toast list"

text \<open>
  \<^verbatim>\<open>invalidateQueries({ queryKey: k })\<close> marks for refetch every cached query
  whose key begins with \<open>k\<close>.
\<close>

definition key_matches :: "query_key \<Rightarrow> query_key \<Rightarrow> bool" where
  "key_matches k q = (take (length k) q = k)"

definition query_invalidated :: "'e page_state \<Rightarrow> query_key \<Rightarrow> bool" where
  "query_invalidated st q = list_ex (\<lambda>k. key_matches k q) (invalidated st)"

fun success_message :: "entity_page \<Rightarrow> mutation \<Rightarrow> string" where
  "success_message CustomersPage CreateMutation = ''Customer created''"
| "success_message CustomersPage UpdateMutation = ''Customer updated''"
| "success_message CustomersPage DeleteMutation = ''Customer deleted''"
| "success_message PropertiesPage CreateMutation = ''Property created''"
| "success_message PropertiesPage UpdateMutation = ''Property updated''"
| "success_message PropertiesPage DeleteMutation = ''Property deleted''"
| "success_message LoanApplicationsPage CreateMutation = ''Application created''"
| "success_message LoanApplicationsPage UpdateMutation = ''Application updated''"
| "success_message LoanApplicationsPage DeleteMutation = ''Application deleted''"

fun error_message :: "entity_page \<Rightarrow> mutation \<Rightarrow> string" where
  "error_message CustomersPage CreateMutation = ''Failed to create customer''"
| "error_message CustomersPage UpdateMutation = ''Failed to update customer''"
| "error_message CustomersPage DeleteMutation = ''Failed to delete customer''"
| "error_message PropertiesPage CreateMutation = ''Failed to create property''"
| "error_message PropertiesPage UpdateMutation = ''Failed to update property''"
| "error_message PropertiesPage DeleteMutation = ''Failed to delete property''"
| "error_message LoanApplicationsPage CreateMutation = ''Failed to create application''"
| "error_message LoanApplicationsPage UpdateMutation = ''Failed to update application''"
| "error_message LoanApplicationsPage DeleteMutation = ''Failed to delete application''"

text \<open>
  The modal of a mutation: the create modal (\<^verbatim>\<open>isOpen={isCreateOpen}\<close>), the edit
  modal (\<^verbatim>\<open>isOpen={!!editing}\<close>), the confirmation dialog
  (\<^verbatim>\<open>isOpen={!!deleting}\<close>).
\<close>

fun modal_open :: "mutation \<Rightarrow> 'e page_state \<Rightarrow> bool" where
  "modal_open CreateMutation st = isCreateOpen st"
| "modal_open UpdateMutation st = (editing st \<noteq> None)"
| "modal_open DeleteMutation st = (deleting st \<noteq> None)"

fun close_modal :: "mutation \<Rightarrow> 'e page_state \<Rightarrow> 'e page_state" where
  "close_modal CreateMutation st = st\<lparr>isCreateOpen := False\<rparr>"
| "close_modal UpdateMutation st = st\<lparr>editing := None\<rparr>"
| "close_modal DeleteMutation st = st\<lparr>deleting := None\<rparr>"

text \<open>
  \<^verbatim>\<open>onSuccess: () => { queryClient.invalidateQueries({ queryKey: [k] }); setX(...); toast.success(msg); }\<close>
  and \<^verbatim>\<open>onError: () => toast.error(msg)\<close>.
\<close>

definition onSuccess :: "entity_page \<Rightarrow> mutation \<Rightarrow> 'e page_state \<Rightarrow> 'e page_state" where
  "onSuccess page m st =
     (let st1 = st\<lparr>invalidated := invalidated st @ [invalidateKey page m]\<rparr>;
          st2 = close_modal m st1
      in st2\<lparr>toasts := toasts st2 @ [Toast_success (success_message page m)]\<rparr>)"

definition onError :: "entity_page \<Rightarrow> mutation \<Rightarrow> 'e page_state \<Rightarrow> 'e page_state" where
  "onError page m st = st\<lparr>toasts := toasts st @ [Toast_error (error_message page m)]\<rparr>"

definition settle ::
  "entity_page \<Rightarrow> mutation \<Rightarrow> outcome \<Rightarrow> 'e page_state \<Rightarrow> 'e page_state" where
  "settle page m result st =
     (case result of Fulfilled \<Rightarrow> onSuccess page m st | Rejected \<Rightarrow> onError page m st)"


section \<open>The dashboard\<close>

text \<open>
  \<^verbatim>\<open>LoanApplication\<close> of \<^verbatim>\<open>src/types/index.ts\<close>, and lines 40-50 of
  \<^verbatim>\<open>src/pages/DashboardPage.tsx\<close>. \<^verbatim>\<open>new Date(s).getTime()\<close> is a parameter: it
  is \<open>NaN\<close> for a string that is not a date, and its reading of a string outside
  the ISO format is left to the engine.
\<close>

datatype LoanType = Conventional | FHA | VA | USDA | Jumbo

datatype LoanStatus = Draft | Submitted | UnderReview | Approved | Denied | Closed | Funded

record LoanApplication =
  id' :: string
  customerId :: string
  propertyId :: string
  loanType :: LoanType
  loanAmount :: jsnum
  downPayment :: jsnum
  interestRate :: "jsnum option"
  termMonths :: jsnum
  status :: LoanStatus
  applicationDate :: string
  notes' :: "string option"
  createdAt :: string
  updatedAt :: "string option"








section \<open>Sort-state transitions\<close>

text \<open>
  C5. Clicking the sortable header for a key \<open>k\<close>: from no sort, or from a sort on
  another column, the state becomes ascending on \<open>k\<close>; from ascending on \<open>k\<close> it
  becomes descending on \<open>k\<close>; from descending on \<open>k\<close> it becomes unsorted. Three
  clicks on the same column starting from unsorted end unsorted, and a click on a
  second column while a first is active discards the first sort and starts
  ascending on the second.
\<close>

theorem handleSort_cycle:
  fixes c :: "('r, 'node) column"
  assumes "sortable c = Some True" and "col_key c = k"
  shows "headerClick c None = Some \<lparr>key = k, direction = Asc\<rparr>
    \<and> (\<forall>k' d. k' \<noteq> k \<longrightarrow>
          headerClick c (Some \<lparr>key = k', direction = d\<rparr>) = Some \<lparr>key = k, direction = Asc\<rparr>)
    \<and> headerClick c (Some \<lparr>key = k, direction = Asc\<rparr>) = Some \<lparr>key = k, direction = Desc\<rparr>
    \<and> headerClick c (Some \<lparr>key = k, direction = Desc\<rparr>) = None
    \<and> headerClick c (headerClick c (headerClick c None)) = None"
  using assms by (simp add: headerClick_def handleSort_def)

theorem handleSort_cycle_witness:
  "headerClick \<lparr>col_key = ''status'', header = ''Status'',
       render = (None :: (unit \<Rightarrow> unit) option), sortable = Some True\<rparr>
     (Some \<lparr>key = ''loanType'', direction = Desc\<rparr>)
     = Some \<lparr>key = ''status'', direction = Asc\<rparr>
   \<and> headerClick \<lparr>col_key = ''status'', header = ''Status'',
       render = (None :: (unit \<Rightarrow> unit) option), sortable = Some True\<rparr>
     (Some \<lparr>key = ''status'', direction = Desc\<rparr>) = None"
proof -
  let ?c = "\<lparr>col_key = ''status'', header = ''Status'',
              render = (None :: (unit \<Rightarrow> unit) option), sortable = Some True\<rparr>"
  have s: "sortable ?c = Some True" and k: "col_key ?c = ''status''" by simp_all
  have n: "''loanType'' \<noteq> ''status''" by simp
  note h = handleSort_cycle[OF s k]
  from h have "headerClick ?c (Some \<lparr>key = ''loanType'', direction = Desc\<rparr>)
      = Some \<lparr>key = ''status'', direction = Asc\<rparr>"
    using n by (elim conjE allE[of _ "''loanType''"] allE[of _ Desc] impE)
  moreover from h have "headerClick ?c (Some \<lparr>key = ''status'', direction = Desc\<rparr>) = None"
    by (elim conjE)
  ultimately show ?thesis by (rule conjI)
qed


section \<open>The filter\<close>

lemma starts_with_iff: "starts_with s t \<longleftrightarrow> (\<exists>w. s = t @ w)"
  by (induction s t rule: starts_with.induct) auto

lemma str_includes_iff: "str_includes s t \<longleftrightarrow> contains_substring s t"
proof (induction s)
  case Nil
  then show ?case by (simp add: contains_substring_def)
next
  case (Cons x s)
  have "contains_substring (x # s) t \<longleftrightarrow> (\<exists>w. x # s = t @ w) \<or> contains_substring s t"
  proof
    assume "contains_substring (x # s) t"
    then obtain u w where e: "x # s = u @ t @ w" by (auto simp: contains_substring_def)
    show "(\<exists>w. x # s = t @ w) \<or> contains_substring s t"
    proof (cases u)
      case Nil
      with e show ?thesis by auto
    next
      case (Cons a u')
      with e have "s = u' @ t @ w" by simp
      then show ?thesis by (auto simp: contains_substring_def)
    qed
  next
    assume "(\<exists>w. x # s = t @ w) \<or> contains_substring s t"
    then show "contains_substring (x # s) t"
    proof
      assume "\<exists>w. x # s = t @ w"
      then obtain w where "x # s = [] @ t @ w" by auto
      then show ?thesis unfolding contains_substring_def by blast
    next
      assume "contains_substring s t"
      then obtain u w where "s = u @ t @ w" by (auto simp: contains_substring_def)
      then have "x # s = (x # u) @ t @ w" by simp
      then show ?thesis unfolding contains_substring_def by blast
    qed
  qed
  with Cons show ?case by (simp add: starts_with_iff)
qed

lemma list_ex_cong_keys:
  "map col_key cs' = map col_key cs \<Longrightarrow>
     list_ex (\<lambda>c. P (col_key c)) cs' = list_ex (\<lambda>c. P (col_key c)) cs"
proof (induction cs' arbitrary: cs)
  case Nil
  then show ?case by simp
next
  case (Cons a cs')
  then obtain b bs where "cs = b # bs" by (cases cs) auto
  with Cons show ?case by auto
qed

text \<open>
  C2. For every record array, column list and search text \<open>T\<close>: when \<open>T\<close> is
  empty every record is retained; otherwise the filter keeps, in their order,
  exactly the records for which at least one column's raw value is neither null nor
  absent and its string form contains \<open>T\<close> as a substring, both lower-cased. The
  filter reads the raw value under the column key only: two column lists with the
  same keys, whatever their renderers, filter alike.
\<close>

theorem filteredData_retains:
  "(T = [] \<longrightarrow> filteredData numstr data columns T = data)
   \<and> (T \<noteq> [] \<longrightarrow>
        filteredData numstr data columns T = filter (spec_retained numstr columns T) data)
   \<and> (map col_key columns' = map col_key columns \<longrightarrow>
        filteredData numstr data columns' T = filteredData numstr data columns T)"
proof (intro conjI impI)
  show "filteredData numstr data columns T = data" if "T = []"
    using that by (simp add: filteredData_def)
  show "filteredData numstr data columns T = filter (spec_retained numstr columns T) data"
    if "T \<noteq> []"
    using that
    by (auto simp: filteredData_def spec_retained_def list_ex_iff str_includes_iff Let_def
        intro!: filter_cong)
  show "filteredData numstr data columns' T = filteredData numstr data columns T"
    if k: "map col_key columns' = map col_key columns"
  proof -
    have "list_ex (\<lambda>c. (\<lambda>k. let v = get_prop item k
                         in if is_nullish v then False
                            else str_includes (toLowerCase (js_String numstr v)) (toLowerCase T))
                      (col_key c)) columns'
        = list_ex (\<lambda>c. (\<lambda>k. let v = get_prop item k
                         in if is_nullish v then False
                            else str_includes (toLowerCase (js_String numstr v)) (toLowerCase T))
                      (col_key c)) columns" for item
      by (rule list_ex_cong_keys[OF k])
    then show ?thesis by (simp add: filteredData_def)
  qed
qed

theorem filteredData_retains_witness:
  "''fh'' \<noteq> []
   \<and> filter (spec_retained (\<lambda>n. ''0'')
        [\<lparr>col_key = ''loanType'', header = ''Type'',
           render = (None :: (row \<Rightarrow> string) option), sortable = Some True\<rparr>,
         \<lparr>col_key = ''notes'', header = ''Notes'', render = None, sortable = None\<rparr>] ''fh'')
        [[(''id'', JStr ''a1''), (''loanType'', JStr ''FHA''), (''notes'', JNull)],
         [(''id'', JStr ''b2''), (''loanType'', JStr ''Jumbo'')]]
      = [[(''id'', JStr ''a1''), (''loanType'', JStr ''FHA''), (''notes'', JNull)]]
   \<and> filteredData (\<lambda>n. ''0'')
        [[(''id'', JStr ''a1''), (''loanType'', JStr ''FHA''), (''notes'', JNull)],
         [(''id'', JStr ''b2''), (''loanType'', JStr ''Jumbo'')]]
        [\<lparr>col_key = ''loanType'', header = ''Type'',
           render = Some (\<lambda>r :: row. ''Jumbo''), sortable = Some True\<rparr>,
         \<lparr>col_key = ''notes'', header = ''Notes'', render = None, sortable = None\<rparr>] ''fh''
      = [[(''id'', JStr ''a1''), (''loanType'', JStr ''FHA''), (''notes'', JNull)]]"
proof -
  let ?data = "[[(''id'', JStr ''a1''), (''loanType'', JStr ''FHA''), (''notes'', JNull)],
                [(''id'', JStr ''b2''), (''loanType'', JStr ''Jumbo'')]]"
  let ?cols = "[\<lparr>col_key = ''loanType'', header = ''Type'',
                  render = (None :: (row \<Rightarrow> string) option), sortable = Some True\<rparr>,
                \<lparr>col_key = ''notes'', header = ''Notes'', render = None, sortable = None\<rparr>]"
  let ?cols' = "[\<lparr>col_key = ''loanType'', header = ''Type'',
                  render = Some (\<lambda>r :: row. ''Jumbo''), sortable = Some True\<rparr>,
                \<lparr>col_key = ''notes'', header = ''Notes'', render = None, sortable = None\<rparr>]"
  have t: "''fh'' \<noteq> []" by simp
  have k: "map col_key ?cols' = map col_key ?cols" by simp
  have v: "filteredData (\<lambda>n. ''0'') ?data ?cols ''fh''
      = [[(''id'', JStr ''a1''), (''loanType'', JStr ''FHA''), (''notes'', JNull)]]"
    by (simp add: filteredData_def get_prop_def toLowerCase_def lower_unit_def code_unit_def
        char_of_def bit_0)
  note h = filteredData_retains[of "''fh''" "\<lambda>n. ''0''" ?data ?cols ?cols']
  have "filteredData (\<lambda>n. ''0'') ?data ?cols ''fh''
      = filter (spec_retained (\<lambda>n. ''0'') ?cols ''fh'') ?data"
    by (rule h[THEN conjunct2, THEN conjunct1, THEN mp, OF t])
  moreover have "filteredData (\<lambda>n. ''0'') ?data ?cols' ''fh''
      = filteredData (\<lambda>n. ''0'') ?data ?cols ''fh''"
    by (rule h[THEN conjunct2, THEN conjunct2, THEN mp, OF k])
  ultimately show ?thesis using v t by (simp only: simp_thms)
qed


section \<open>The sort\<close>

lemma mset_insert_back: "mset (insert_back before x ys) = add_mset x (mset ys)"
  by (induction ys) auto

lemma mset_foldl_insert_back:
  "mset (foldl (\<lambda>acc x. insert_back before x acc) acc xs) = mset acc + mset xs"
  by (induction xs arbitrary: acc) (auto simp: mset_insert_back)

lemma mset_Array_sort: "mset (Array_sort ord comparefn xs) = mset xs"
  by (simp add: Array_sort_def mset_foldl_insert_back)

lemma set_insert_back: "set (insert_back before x ys) = insert x (set ys)"
  by (induction ys) auto

text \<open>Records without the value first, in the reversed prefix.\<close>

lemma insert_back_partition:
  assumes "sorted_wrt (\<lambda>a b. N a \<or> \<not> N b) ys"
    and "\<And>y. N x \<Longrightarrow> \<not> N y \<Longrightarrow> \<not> before x y"
    and "\<And>y. \<not> N x \<Longrightarrow> N y \<Longrightarrow> before x y"
  shows "sorted_wrt (\<lambda>a b. N a \<or> \<not> N b) (insert_back before x ys)"
  using assms(1)
proof (induction ys)
  case Nil
  then show ?case by simp
next
  case (Cons y ys)
  show ?case
  proof (cases "before x y")
    case True
    then have "N y \<or> \<not> N x" using assms(2) by blast
    with Cons True show ?thesis by (auto simp: set_insert_back)
  next
    case False
    then have "N x \<or> \<not> N y" using assms(3) by blast
    with Cons False show ?thesis by auto
  qed
qed

lemma foldl_insert_back_partition:
  assumes "sorted_wrt (\<lambda>a b. N a \<or> \<not> N b) acc"
    and "\<And>x y. N x \<Longrightarrow> \<not> N y \<Longrightarrow> \<not> before x y"
    and "\<And>x y. \<not> N x \<Longrightarrow> N y \<Longrightarrow> before x y"
  shows "sorted_wrt (\<lambda>a b. N a \<or> \<not> N b) (foldl (\<lambda>acc x. insert_back before x acc) acc xs)"
  using assms(1)
proof (induction xs arbitrary: acc)
  case Nil
  then show ?case by simp
next
  case (Cons x xs)
  have "sorted_wrt (\<lambda>a b. N a \<or> \<not> N b) (insert_back before x acc)"
    by (rule insert_back_partition[OF Cons.prems]) (use assms(2,3) in blast)+
  then show ?case using Cons.IH by simp
qed

lemma goes_before_nullish:
  assumes "is_nullish (get_prop x (key c))" and "\<not> is_nullish (get_prop y (key c))"
  shows "\<not> goes_before ord (compare_rows c) x y" and "goes_before ord (compare_rows c) y x"
  using assms by (cases ord; simp add: goes_before_def compare_rows_def num_lt_def Let_def)+

lemma Array_sort_nullish_last:
  "sorted_wrt (\<lambda>a b. \<not> is_nullish (get_prop a (key c)) \<or> is_nullish (get_prop b (key c)))
     (Array_sort ord (compare_rows c) xs)"
proof -
  let ?N = "\<lambda>r. is_nullish (get_prop r (key c))"
  have "sorted_wrt (\<lambda>a b. ?N a \<or> \<not> ?N b)
          (foldl (\<lambda>acc x. insert_back (goes_before ord (compare_rows c)) x acc) [] xs)"
    by (rule foldl_insert_back_partition) (simp_all add: goes_before_nullish)
  then show ?thesis
    unfolding Array_sort_def sorted_wrt_rev by (simp add: disj_commute)
qed

text \<open>
  C3. For every filtered record list and every active sort spec, ascending or
  descending, and for either way the engine puts its question to the comparator:
  the sorted output is a rearrangement of the filtered list in which every record
  whose value on the sort column is null or absent stands after every record with
  a value there.
\<close>

theorem sortedData_nullish_last:
  "mset (sortedData ord filtered (Some c)) = mset filtered
   \<and> (\<forall>i j. i < length (sortedData ord filtered (Some c))
          \<and> j < length (sortedData ord filtered (Some c))
          \<and> is_nullish (get_prop (sortedData ord filtered (Some c) ! i) (key c))
          \<and> \<not> is_nullish (get_prop (sortedData ord filtered (Some c) ! j) (key c))
        \<longrightarrow> j < i)"
proof (intro conjI allI impI)
  show "mset (sortedData ord filtered (Some c)) = mset filtered"
    by (simp add: sortedData_def mset_Array_sort)
next
  fix i j
  let ?out = "sortedData ord filtered (Some c)"
  assume a: "i < length ?out \<and> j < length ?out
    \<and> is_nullish (get_prop (?out ! i) (key c)) \<and> \<not> is_nullish (get_prop (?out ! j) (key c))"
  have s: "sorted_wrt (\<lambda>a b. \<not> is_nullish (get_prop a (key c)) \<or> is_nullish (get_prop b (key c))) ?out"
    unfolding sortedData_def option.case by (rule Array_sort_nullish_last)
  show "j < i"
  proof (rule ccontr)
    assume "\<not> j < i"
    moreover from a have "i \<noteq> j" by auto
    ultimately have "i < j" by simp
    with s a have "\<not> is_nullish (get_prop (?out ! i) (key c)) \<or> is_nullish (get_prop (?out ! j) (key c))"
      by (auto simp: sorted_wrt_iff_nth_less)
    with a show False by simp
  qed
qed

theorem sortedData_nullish_last_witness:
  "sortedData LaterFirst
       [[(''id'', JStr ''p1''), (''listingPrice'', JNull)],
        [(''id'', JStr ''p2''), (''listingPrice'', JNum (Num 250000))],
        [(''id'', JStr ''p3'')],
        [(''id'', JStr ''p4''), (''listingPrice'', JNum (Num 180000))]]
       (Some \<lparr>key = ''listingPrice'', direction = Desc\<rparr>)
     = [[(''id'', JStr ''p2''), (''listingPrice'', JNum (Num 250000))],
        [(''id'', JStr ''p4''), (''listingPrice'', JNum (Num 180000))],
        [(''id'', JStr ''p1''), (''listingPrice'', JNull)],
        [(''id'', JStr ''p3'')]]
   \<and> is_nullish (get_prop
        (sortedData LaterFirst
           [[(''id'', JStr ''p1''), (''listingPrice'', JNull)],
            [(''id'', JStr ''p2''), (''listingPrice'', JNum (Num 250000))],
            [(''id'', JStr ''p3'')],
            [(''id'', JStr ''p4''), (''listingPrice'', JNum (Num 180000))]]
           (Some \<lparr>key = ''listingPrice'', direction = Desc\<rparr>) ! 2) ''listingPrice'')
   \<and> \<not> is_nullish (get_prop
        (sortedData LaterFirst
           [[(''id'', JStr ''p1''), (''listingPrice'', JNull)],
            [(''id'', JStr ''p2''), (''listingPrice'', JNum (Num 250000))],
            [(''id'', JStr ''p3'')],
            [(''id'', JStr ''p4''), (''listingPrice'', JNum (Num 180000))]]
           (Some \<lparr>key = ''listingPrice'', direction = Desc\<rparr>) ! 1) ''listingPrice'')
   \<and> (1 :: nat) < 2"
proof -
  let ?xs = "[[(''id'', JStr ''p1''), (''listingPrice'', JNull)],
              [(''id'', JStr ''p2''), (''listingPrice'', JNum (Num 250000))],
              [(''id'', JStr ''p3'')],
              [(''id'', JStr ''p4''), (''listingPrice'', JNum (Num 180000))]]"
  let ?c = "\<lparr>key = ''listingPrice'', direction = Desc\<rparr>"
  have v: "sortedData LaterFirst ?xs (Some ?c)
      = [[(''id'', JStr ''p2''), (''listingPrice'', JNum (Num 250000))],
         [(''id'', JStr ''p4''), (''listingPrice'', JNum (Num 180000))],
         [(''id'', JStr ''p1''), (''listingPrice'', JNull)],
         [(''id'', JStr ''p3'')]]"
    by (simp add: sortedData_def Array_sort_def goes_before_def compare_rows_def get_prop_def
        num_lt_def js_lt_def js_gt_def)
  have n: "is_nullish (get_prop (sortedData LaterFirst ?xs (Some ?c) ! 2) (key ?c))"
    and d: "\<not> is_nullish (get_prop (sortedData LaterFirst ?xs (Some ?c) ! 1) (key ?c))"
    and l: "2 < length (sortedData LaterFirst ?xs (Some ?c))"
      "1 < length (sortedData LaterFirst ?xs (Some ?c))"
    by (simp_all add: v get_prop_def)
  have "(1 :: nat) < 2"
    using sortedData_nullish_last[of LaterFirst ?xs ?c, THEN conjunct2, rule_format, of 2 1]
      n d l by blast
  with v n d show ?thesis by simp
qed

lemma filter_insert_back:
  assumes "\<And>y. S x \<Longrightarrow> S y \<Longrightarrow> \<not> before x y"
  shows "filter S (insert_back before x ys) = (if S x then x # filter S ys else filter S ys)"
  using assms by (induction ys) auto

lemma filter_foldl_insert_back:
  assumes "\<And>x y. S x \<Longrightarrow> S y \<Longrightarrow> \<not> before x y"
  shows "filter S (foldl (\<lambda>acc x. insert_back before x acc) acc xs)
     = rev (filter S xs) @ filter S acc"
proof (induction xs arbitrary: acc)
  case Nil
  then show ?case by simp
next
  case (Cons x xs)
  show ?case using assms by (simp add: Cons.IH filter_insert_back)
qed

lemma Array_sort_stable:
  assumes "\<And>x y. S x \<Longrightarrow> S y \<Longrightarrow> \<not> goes_before ord comparefn x y"
  shows "filter S (Array_sort ord comparefn xs) = filter S xs"
  using assms by (simp add: Array_sort_def filter_foldl_insert_back flip: rev_filter)

lemma num_lt_irrefl: "\<not> num_lt x x"
  by (simp add: num_lt_def)

lemma str_lt_irrefl: "\<not> str_lt s s"
  by (induction s) auto

lemma js_lt_irrefl: "\<not> js_lt v v"
  by (cases v) (simp_all add: js_lt_def num_lt_irrefl str_lt_irrefl)

lemma compare_rows_tie:
  assumes "compare_rows c a b = Num 0"
  shows "compare_rows c b a = Num 0" and "compare_rows c a a = Num 0" and "compare_rows c b b = Num 0"
  using assms js_lt_irrefl
  by (auto simp: compare_rows_def Let_def js_gt_def split: if_splits)

lemma sortedData_stable:
  assumes "compare_rows c a b = Num 0"
  shows "filter (\<lambda>r. r = a \<or> r = b) (sortedData ord filtered (Some c))
       = filter (\<lambda>r. r = a \<or> r = b) filtered"
proof -
  have "\<not> goes_before ord (compare_rows c) x y" if "x = a \<or> x = b" "y = a \<or> y = b" for x y
    using that assms compare_rows_tie[OF assms]
    by (cases ord) (auto simp: goes_before_def num_lt_def)
  then show ?thesis
    by (simp add: sortedData_def Array_sort_stable)
qed

text \<open>
  C4. The comparator does not report two records that both lack the value on the
  sort column as a tie: it answers 1 for the pair in either order. On the
  customers table the sortable column \<^verbatim>\<open>name\<close> is a key no customer record
  has; sorting two customers by it leaves them in place when the engine asks
  \<^verbatim>\<open>comparefn(later, earlier) < 0\<close> and swaps them when it asks
  \<^verbatim>\<open>comparefn(earlier, later) > 0\<close>.
\<close>

theorem sortedData_nullish_pair_not_tie:
  "compare_rows \<lparr>key = ''name'', direction = Asc\<rparr>
       [(''id'', JStr ''c1''), (''phone'', JStr ''555-0101'')]
       [(''id'', JStr ''c2''), (''phone'', JStr ''555-0102'')] = Num 1
   \<and> compare_rows \<lparr>key = ''name'', direction = Asc\<rparr>
       [(''id'', JStr ''c2''), (''phone'', JStr ''555-0102'')]
       [(''id'', JStr ''c1''), (''phone'', JStr ''555-0101'')] = Num 1
   \<and> sortedData EarlierFirst
       [[(''id'', JStr ''c1''), (''phone'', JStr ''555-0101'')],
        [(''id'', JStr ''c2''), (''phone'', JStr ''555-0102'')]]
       (Some \<lparr>key = ''name'', direction = Asc\<rparr>)
     = [[(''id'', JStr ''c2''), (''phone'', JStr ''555-0102'')],
        [(''id'', JStr ''c1''), (''phone'', JStr ''555-0101'')]]
   \<and> sortedData LaterFirst
       [[(''id'', JStr ''c1''), (''phone'', JStr ''555-0101'')],
        [(''id'', JStr ''c2''), (''phone'', JStr ''555-0102'')]]
       (Some \<lparr>key = ''name'', direction = Asc\<rparr>)
     = [[(''id'', JStr ''c1''), (''phone'', JStr ''555-0101'')],
        [(''id'', JStr ''c2''), (''phone'', JStr ''555-0102'')]]"
  by (simp add: sortedData_def Array_sort_def goes_before_def compare_rows_def get_prop_def
      num_lt_def)


section \<open>Pagination\<close>

lemma slice_nonneg:
  "0 \<le> a \<Longrightarrow> 0 \<le> b \<Longrightarrow> slice xs a b = take (nat (b - a)) (drop (nat a) xs)"
  by (cases "a \<le> int (length xs)"; cases "b \<le> int (length xs)")
     (auto simp: slice_def Let_def min_def)

lemma paginatedData_take_drop:
  assumes "0 < pageSize" and "1 \<le> p"
  shows "paginatedData xs pageSize p = take (nat pageSize) (drop (nat ((p - 1) * pageSize)) xs)"
proof -
  have "p * pageSize - (p - 1) * pageSize = pageSize" by (simp add: algebra_simps)
  moreover have "0 \<le> (p - 1) * pageSize" "0 \<le> p * pageSize" using assms by simp_all
  ultimately show ?thesis by (simp add: paginatedData_def slice_nonneg)
qed

lemma totalPages_ceiling:
  assumes "0 < pageSize"
  shows "totalPages xs pageSize = Num (of_int \<lceil>real (length xs) / real_of_int pageSize\<rceil>)"
proof (cases "length xs = 0")
  case True
  then show ?thesis using assms by (simp add: totalPages_def js_div_def fin_def js_zero_def)
next
  case False
  define q where "q = real (length xs) / real_of_int pageSize"
  have q: "0 < q" unfolding q_def using assms False by simp
  then have "0 < \<lceil>q\<rceil>" by (simp add: less_ceiling_iff)
  then have c: "\<lceil>q\<rceil> \<noteq> 0" by linarith
  have "js_div (Num (real (length xs))) (Num (real_of_int pageSize)) = Num q"
    using assms q False by (simp add: js_div_def fin_def js_zero_def q_def)
  then have "totalPages xs pageSize = Math_ceil (Num q)" by (simp add: totalPages_def)
  also have "\<dots> = Num (of_int \<lceil>q\<rceil>)" using c by (simp add: fin_def)
  finally show ?thesis unfolding q_def .
qed

text \<open>
  C6. Pagination cuts the sorted sequence into consecutive pages of the configured
  size: the size given by the prop, 10 when the prop is absent. With page size 10
  and 25 records the page count is 3 and page 3 holds the last 5 records. In
  general, for a positive page size, the page count is the number of records
  divided by the page size, rounded up, and for a page index \<open>p \<ge> 1\<close>, page
  \<open>p\<close> is the run of at most \<open>pageSize\<close> records that starts at position
  \<open>(p - 1) * pageSize\<close>: its \<open>i\<close>-th record is the record at position
  \<open>(p - 1) * pageSize + i\<close>.
\<close>

theorem paginatedData_pages:
  "pageSize_of None = 10
   \<and> (length xs = 25 \<longrightarrow>
        totalPages xs (pageSize_of None) = Num 3
        \<and> paginatedData xs (pageSize_of None) 3 = drop 20 xs
        \<and> length (paginatedData xs (pageSize_of None) 3) = 5)
   \<and> (0 < pageSize \<and> 1 \<le> p \<longrightarrow>
        paginatedData xs pageSize p = take (nat pageSize) (drop (nat ((p - 1) * pageSize)) xs)
        \<and> length (paginatedData xs pageSize p)
            = min (nat pageSize) (length xs - nat ((p - 1) * pageSize))
        \<and> (\<forall>i < length (paginatedData xs pageSize p).
              paginatedData xs pageSize p ! i = xs ! (nat ((p - 1) * pageSize) + i)))
   \<and> pageSize_of (Some n) = n
   \<and> (0 < pageSize \<longrightarrow>
        totalPages xs pageSize = Num (of_int \<lceil>real (length xs) / real_of_int pageSize\<rceil>))"
proof (intro conjI impI)
  show "pageSize_of None = 10" by (simp add: pageSize_of_def)
next
  show "pageSize_of (Some n) = n" by (simp add: pageSize_of_def)
next
  assume "0 < pageSize"
  then show "totalPages xs pageSize = Num (of_int \<lceil>real (length xs) / real_of_int pageSize\<rceil>)"
    by (rule totalPages_ceiling)
next
  assume l: "length xs = 25"
  show "totalPages xs (pageSize_of None) = Num 3"
    by (simp add: totalPages_def pageSize_of_def js_div_def fin_def l)
  have p3: "paginatedData xs (pageSize_of None) 3 = take 10 (drop 20 xs)"
    using paginatedData_take_drop[of 10 3 xs] by (simp add: pageSize_of_def)
  then show "paginatedData xs (pageSize_of None) 3 = drop 20 xs" using l by simp
  from p3 show "length (paginatedData xs (pageSize_of None) 3) = 5" using l by simp
next
  assume a: "0 < pageSize \<and> 1 \<le> p"
  then have e: "paginatedData xs pageSize p
      = take (nat pageSize) (drop (nat ((p - 1) * pageSize)) xs)"
    by (simp add: paginatedData_take_drop)
  then show "paginatedData xs pageSize p
      = take (nat pageSize) (drop (nat ((p - 1) * pageSize)) xs)" .
  from e show "length (paginatedData xs pageSize p)
      = min (nat pageSize) (length xs - nat ((p - 1) * pageSize))" by simp
  from e show "\<forall>i < length (paginatedData xs pageSize p).
      paginatedData xs pageSize p ! i = xs ! (nat ((p - 1) * pageSize) + i)"
    by (auto intro: nth_drop)
qed

theorem paginatedData_pages_witness:
  "totalPages [1 ..< 26 :: nat] (pageSize_of None) = Num 3
   \<and> paginatedData [1 ..< 26 :: nat] (pageSize_of None) 3 = [21, 22, 23, 24, 25]
   \<and> paginatedData [1 ..< 26 :: nat] 10 2 = [11, 12, 13, 14, 15, 16, 17, 18, 19, 20]
   \<and> (0 :: int) < pageSize_of (Some 4)
   \<and> totalPages [1 ..< 26 :: nat] (pageSize_of (Some 4)) = Num 7
   \<and> paginatedData [1 ..< 26 :: nat] (pageSize_of (Some 4)) 7 = [25]"
proof -
  have s4: "pageSize_of (Some 4) = 4"
    by (rule paginatedData_pages[THEN conjunct2, THEN conjunct2, THEN conjunct2, THEN conjunct1])
  have pos4: "(0 :: int) < 4" by simp
  have "totalPages [1 ..< 26 :: nat] 4
      = Num (of_int \<lceil>real (length [1 ..< 26 :: nat]) / real_of_int 4\<rceil>)"
    by (rule paginatedData_pages[THEN conjunct2, THEN conjunct2, THEN conjunct2, THEN conjunct2,
          THEN mp, OF pos4])
  moreover have "\<lceil>(25 :: real) / 4\<rceil> = 7" by (simp add: ceiling_eq_iff)
  ultimately have c4: "totalPages [1 ..< 26 :: nat] (pageSize_of (Some 4)) = Num 7"
    by (simp add: s4)
  have p7: "paginatedData [1 ..< 26 :: nat] (pageSize_of (Some 4)) 7 = [25]"
    by (simp add: s4 paginatedData_def slice_def drop_upt upt_rec)
  have l: "length [1 ..< 26 :: nat] = 25" by simp
  have d: "drop 20 [1 ..< 26 :: nat] = [21, 22, 23, 24, 25]"
    by (simp add: drop_upt upt_rec)
  have d2: "take (nat 10) (drop (nat ((2 - 1) * 10)) [1 ..< 26 :: nat])
      = [11, 12, 13, 14, 15, 16, 17, 18, 19, 20]"
    by (simp add: drop_upt take_upt upt_rec)
  have g: "(0::int) < 10 \<and> (1::int) \<le> 2" by simp
  from paginatedData_pages[of "[1 ..< 26 :: nat]" 10 2] l d d2 g c4 p7 s4
  show ?thesis by (simp add: pageSize_of_def)
qed

lemma paginatedData_empty:
  "int (length xs) \<le> (p - 1) * pageSize \<Longrightarrow> paginatedData xs pageSize p = []"
  by (auto simp: paginatedData_def slice_def Let_def min_def max_def)

text \<open>
  C9. Deriving the page never clamps or writes the page index. For every record
  list, page size and page index \<open>p\<close> with \<open>(p - 1) * pageSize\<close> at least the
  number of filtered and sorted records, the derivation still yields a result: the
  page slice is empty and the body is the empty-state placeholder. The page index
  is an input of the derivation only, and a new search text leaves it as it was:
  when the search shrinks the record list below the current page, the body is the
  placeholder and the stored index is still \<open>p\<close>.
\<close>

theorem paginatedData_out_of_range:
  "(int (length xs) \<le> (p - 1) * pageSize \<longrightarrow>
      paginatedData xs pageSize p = [] \<and> tbody_of (paginatedData xs pageSize p) = EmptyState)
   \<and> currentPage (setSearchQuery q st) = currentPage st
   \<and> (int (length (sortedData ord (filteredData numstr data columns q) (sortConfig st)))
        \<le> (currentPage st - 1) * pageSize_of ps \<longrightarrow>
      DataTable_body ord numstr data columns ps (setSearchQuery q st) = EmptyState)"
  by (simp add: paginatedData_empty tbody_of_def DataTable_body_def setSearchQuery_def Let_def)

theorem paginatedData_out_of_range_witness:
  "int (length [1, 2, 3 :: nat]) \<le> (3 - 1) * 2
   \<and> paginatedData [1, 2, 3 :: nat] 2 3 = []
   \<and> tbody_of (paginatedData [1, 2, 3 :: nat] 2 3) = EmptyState
   \<and> paginatedData [1, 2, 3 :: nat] 2 2 = [3]"
proof -
  have h: "int (length [1, 2, 3 :: nat]) \<le> (3 - 1) * 2" by simp
  have "paginatedData [1, 2, 3 :: nat] 2 2 = [3]"
    by (simp add: paginatedData_def slice_def)
  with h paginatedData_out_of_range[of "[1, 2, 3 :: nat]" 3 2, THEN conjunct1, THEN mp, OF h]
  show ?thesis by (simp add: tbody_of_def)
qed


section \<open>Mutations\<close>

lemma invalidateKey_is_list_key: "invalidateKey page m = listQueryKey page"
  by (cases page; cases m) simp_all

lemma key_matches_self: "key_matches k k"
  by (simp add: key_matches_def)

text \<open>
  C7. For every entity page and each of its mutations (create, update, delete): when
  the mutation succeeds, its modal or confirmation dialog is closed, the key under
  which the page caches its list is handed to \<^verbatim>\<open>invalidateQueries\<close>, so that the
  cached list is marked for refetch, and a success notification is emitted; when it
  fails, the only effect is a failure notification: the three pieces of modal state,
  the cached list and the invalidations are unchanged, so a modal that was open is
  still open and no query is newly marked for refetch. In particular a failed
  delete leaves the confirmation dialog open and the record in the displayed list.
\<close>

theorem settle_mutation:
  "\<not> modal_open m (settle page m Fulfilled st)
   \<and> invalidated (settle page m Fulfilled st) = invalidated st @ [listQueryKey page]
   \<and> query_invalidated (settle page m Fulfilled st) (listQueryKey page)
   \<and> toasts (settle page m Fulfilled st) = toasts st @ [Toast_success (success_message page m)]
   \<and> cachedList (settle page m Fulfilled st) = cachedList st
   \<and> settle page m Rejected st = st\<lparr>toasts := toasts st @ [Toast_error (error_message page m)]\<rparr>
   \<and> isCreateOpen (settle page m Rejected st) = isCreateOpen st
   \<and> editing (settle page m Rejected st) = editing st
   \<and> deleting (settle page m Rejected st) = deleting st
   \<and> cachedList (settle page m Rejected st) = cachedList st
   \<and> invalidated (settle page m Rejected st) = invalidated st
   \<and> query_invalidated (settle page m Rejected st) q = query_invalidated st q
   \<and> (modal_open m st \<longrightarrow> modal_open m (settle page m Rejected st))
   \<and> (deleting st = Some r \<and> r \<in> set (cachedList st) \<longrightarrow>
        modal_open DeleteMutation (settle page DeleteMutation Rejected st)
        \<and> r \<in> set (cachedList (settle page DeleteMutation Rejected st)))"
  by (cases m)
     (simp_all add: settle_def onSuccess_def onError_def Let_def query_invalidated_def
        invalidateKey_is_list_key key_matches_self)

theorem settle_mutation_witness:
  "deleting \<lparr>isCreateOpen = False, editing = None, deleting = Some ''p1'',
       cachedList = [''p1'', ''p2''], invalidated = [], toasts = []\<rparr> = Some ''p1''
   \<and> ''p1'' \<in> set (cachedList \<lparr>isCreateOpen = False, editing = None, deleting = Some ''p1'',
       cachedList = [''p1'', ''p2''], invalidated = [], toasts = []\<rparr>)
   \<and> settle PropertiesPage DeleteMutation Rejected
       \<lparr>isCreateOpen = False, editing = None, deleting = Some ''p1'',
        cachedList = [''p1'', ''p2''], invalidated = [], toasts = []\<rparr>
     = \<lparr>isCreateOpen = False, editing = None, deleting = Some ''p1'',
        cachedList = [''p1'', ''p2''], invalidated = [],
        toasts = [Toast_error ''Failed to delete property'']\<rparr>
   \<and> modal_open DeleteMutation (settle PropertiesPage DeleteMutation Rejected
       \<lparr>isCreateOpen = False, editing = None, deleting = Some ''p1'',
        cachedList = [''p1'', ''p2''], invalidated = [], toasts = []\<rparr>)
   \<and> ''p1'' \<in> set (cachedList (settle PropertiesPage DeleteMutation Rejected
       \<lparr>isCreateOpen = False, editing = None, deleting = Some ''p1'',
        cachedList = [''p1'', ''p2''], invalidated = [], toasts = []\<rparr>))
   \<and> settle PropertiesPage DeleteMutation Fulfilled
       \<lparr>isCreateOpen = False, editing = None, deleting = Some ''p1'',
        cachedList = [''p1'', ''p2''], invalidated = [], toasts = []\<rparr>
     = \<lparr>isCreateOpen = False, editing = None, deleting = None,
        cachedList = [''p1'', ''p2''], invalidated = [[''properties'']],
        toasts = [Toast_success ''Property deleted'']\<rparr>
   \<and> query_invalidated (settle PropertiesPage DeleteMutation Fulfilled
       \<lparr>isCreateOpen = False, editing = None, deleting = Some ''p1'',
        cachedList = [''p1'', ''p2''], invalidated = [], toasts = []\<rparr>) [''properties'']"
proof -
  let ?st = "\<lparr>isCreateOpen = False, editing = None, deleting = Some ''p1'',
       cachedList = [''p1'', ''p2''], invalidated = [], toasts = []\<rparr>"
  have h: "deleting ?st = Some ''p1'' \<and> ''p1'' \<in> set (cachedList ?st)" by simp
  note t = settle_mutation[of DeleteMutation PropertiesPage ?st _ "''p1''"]
  have e: "settle PropertiesPage DeleteMutation Rejected ?st
      = ?st\<lparr>toasts := toasts ?st @ [Toast_error (error_message PropertiesPage DeleteMutation)]\<rparr>"
    by (rule t[THEN conjunct2, THEN conjunct2, THEN conjunct2, THEN conjunct2, THEN conjunct2, THEN conjunct1])
  have "modal_open DeleteMutation (settle PropertiesPage DeleteMutation Rejected ?st)
        \<and> ''p1'' \<in> set (cachedList (settle PropertiesPage DeleteMutation Rejected ?st))"
    by (rule t[THEN conjunct2, THEN conjunct2, THEN conjunct2, THEN conjunct2, THEN conjunct2, THEN conjunct2, THEN conjunct2, THEN conjunct2, THEN conjunct2, THEN conjunct2, THEN conjunct2, THEN conjunct2, THEN conjunct2, THEN mp, OF h])
  moreover have "query_invalidated (settle PropertiesPage DeleteMutation Fulfilled ?st)
      (listQueryKey PropertiesPage)"
    by (rule t[THEN conjunct2, THEN conjunct2, THEN conjunct1])
  moreover have "settle PropertiesPage DeleteMutation Fulfilled ?st
     = \<lparr>isCreateOpen = False, editing = None, deleting = None,
        cachedList = [''p1'', ''p2''], invalidated = [[''properties'']],
        toasts = [Toast_success ''Property deleted'']\<rparr>"
    by (simp add: settle_def onSuccess_def Let_def)
  ultimately show ?thesis using h e by simp
qed


section \<open>The dashboard's aggregates\<close>











section \<open>The payment estimate\<close>

subsection \<open>Rounding to binary64\<close>

text \<open>
  The nearest integer is within a half; a value in the normal range is rounded with
  a relative error of at most \<open>2 ^ - 53\<close>; an integer multiple of a power of two
  with a multiplier below \<open>2 ^ 53\<close> is a binary64 value and is kept; and 1 plus
  less than \<open>2 ^ - 53\<close> is rounded to 1.
\<close>

lemma round_half_even_near: "\<bar>of_int (round_half_even y) - y\<bar> \<le> 1 / 2"
  unfolding round_half_even_def Let_def by (auto; linarith)

lemma round_half_even_of_int: "round_half_even (of_int k) = k"
  by (simp add: round_half_even_def)

lemma binade_bounds:
  assumes "x \<noteq> 0"
  shows "2 powr of_int \<lfloor>log 2 \<bar>x\<bar>\<rfloor> \<le> \<bar>x\<bar>" and "\<bar>x\<bar> < 2 powr of_int (\<lfloor>log 2 \<bar>x\<bar>\<rfloor> + 1)"
proof -
  have p: "0 < \<bar>x\<bar>" using assms by simp
  have x: "2 powr log 2 \<bar>x\<bar> = \<bar>x\<bar>" using p by simp
  have "2 powr of_int \<lfloor>log 2 \<bar>x\<bar>\<rfloor> \<le> 2 powr log 2 \<bar>x\<bar>"
    by (rule powr_mono) simp_all
  then show "2 powr of_int \<lfloor>log 2 \<bar>x\<bar>\<rfloor> \<le> \<bar>x\<bar>" unfolding x .
  have "log 2 \<bar>x\<bar> < of_int (\<lfloor>log 2 \<bar>x\<bar>\<rfloor> + 1)" by linarith
  then have "2 powr log 2 \<bar>x\<bar> < 2 powr of_int (\<lfloor>log 2 \<bar>x\<bar>\<rfloor> + 1)"
    by (rule powr_less_mono) simp
  then show "\<bar>x\<bar> < 2 powr of_int (\<lfloor>log 2 \<bar>x\<bar>\<rfloor> + 1)" unfolding x .
qed

lemma round64_accurate_powr:
  assumes lo: "2 powr (- 1022) \<le> \<bar>x\<bar>" and hi: "\<bar>x\<bar> \<le> 2 powr 1023"
  shows "round64 x = Num (val (round64 x)) \<and> \<bar>val (round64 x) - x\<bar> \<le> \<bar>x\<bar> / 2 ^ 53"
proof -
  have p: "0 < \<bar>x\<bar>" using lo by (smt (verit) powr_gt_zero)
  then have nz: "x \<noteq> 0" by auto
  define e where "e = \<lfloor>log 2 \<bar>x\<bar>\<rfloor>"
  have "(- 1022 :: real) \<le> log 2 \<bar>x\<bar>" using lo p by (simp add: le_log_iff)
  then have e: "- 1022 \<le> e" unfolding e_def by linarith
  then have ue: "ulp_exponent x = e - 52" by (simp add: ulp_exponent_def e_def)
  define u :: real where "u = 2 powr of_int (e - 52)"
  have u0: "0 < u" by (simp add: u_def)
  define k where "k = round_half_even (x / u)"
  define m where "m = of_int k * u"
  have "\<bar>of_int k - x / u\<bar> \<le> 1 / 2" unfolding k_def by (rule round_half_even_near)
  then have "\<bar>of_int k - x / u\<bar> * u \<le> 1 / 2 * u" using u0 by (simp add: mult_right_mono)
  moreover have "\<bar>of_int k - x / u\<bar> * u = \<bar>m - x\<bar>"
  proof -
    have "\<bar>of_int k - x / u\<bar> * u = \<bar>(of_int k - x / u) * u\<bar>" using u0 by (simp add: abs_mult)
    also have "(of_int k - x / u) * u = m - x" using u0 by (simp add: m_def algebra_simps)
    finally show ?thesis .
  qed
  ultimately have d: "\<bar>m - x\<bar> \<le> u / 2" by simp
  have "u = 2 powr of_int e / 2 ^ 52"
    unfolding u_def by (simp add: powr_diff flip: powr_realpow)
  moreover have "2 powr of_int e \<le> \<bar>x\<bar>" unfolding e_def by (rule binade_bounds(1)[OF nz])
  ultimately have "u / 2 \<le> \<bar>x\<bar> / 2 ^ 53" by (simp add: field_simps)
  with d have acc: "\<bar>m - x\<bar> \<le> \<bar>x\<bar> / 2 ^ 53" by linarith
  have "\<bar>x\<bar> / 2 ^ 53 < \<bar>x\<bar>" using p by simp
  with acc have m0: "m \<noteq> 0" by auto
  have "\<bar>m\<bar> \<le> \<bar>x\<bar> + \<bar>x\<bar> / 2 ^ 53" using acc by linarith
  also have "\<dots> \<le> 2 powr 1023 + 2 powr 1023 / 2 ^ 53" using hi by (simp add: divide_right_mono add_mono)
  also have "\<dots> < 2 * 2 powr 1023" by simp
  also have "\<dots> = 2 ^ 1024" by (simp flip: powr_realpow)
  finally have mh: "\<not> 2 ^ 1024 \<le> \<bar>m\<bar>" by simp
  have "round64 x = Num m"
    using mh m0 by (simp add: round64_def Let_def ue fin_def m_def k_def u_def)
  with acc show ?thesis by simp
qed

lemma round64_exact:
  assumes k: "k \<noteq> 0" "\<bar>k\<bar> < 2 ^ 53" and e: "- 1074 \<le> e" "e \<le> 970"
  shows "round64 (of_int k * 2 powr of_int e) = Num (of_int k * 2 powr of_int e)"
proof -
  define x :: real where "x = of_int k * 2 powr of_int e"
  have nz: "x \<noteq> 0" using k by (simp add: x_def)
  have ax: "\<bar>x\<bar> = of_int \<bar>k\<bar> * 2 powr of_int e" by (simp add: x_def abs_mult)
  have "real_of_int \<bar>k\<bar> < 2 ^ 53" using k(2) by (metis of_int_less_numeral_power_cancel_iff)
  then have "\<bar>x\<bar> < 2 ^ 53 * 2 powr of_int e" unfolding ax by simp
  also have "\<dots> = 2 powr of_int (53 + e)" by (simp add: powr_add flip: powr_realpow)
  finally have xb: "\<bar>x\<bar> < 2 powr of_int (53 + e)" .
  have "log 2 \<bar>x\<bar> < of_int (53 + e)"
    using xb nz by (simp add: log_less_iff)
  then have "\<lfloor>log 2 \<bar>x\<bar>\<rfloor> < 53 + e" by linarith
  then have ub': "ulp_exponent x \<le> e" using e by (simp add: ulp_exponent_def)
  define b where "b = ulp_exponent x"
  have ub: "b \<le> e" using ub' by (simp add: b_def)
  define j where "j = nat (e - b)"
  have je: "of_int e = of_int b + real j" using ub by (simp add: j_def)
  have "(2 :: real) powr of_int e = 2 powr of_int b * 2 ^ j"
    unfolding je by (simp add: powr_add powr_realpow)
  then have "x = of_int (k * 2 ^ j) * 2 powr of_int b"
    by (simp add: x_def)
  then have q: "x / 2 powr of_int b = of_int (k * 2 ^ j)" by simp
  have "round_half_even (x / 2 powr of_int b) = k * 2 ^ j"
    by (simp only: q round_half_even_of_int)
  then have "of_int (round_half_even (x / 2 powr of_int b)) = x / 2 powr of_int b"
    by (simp only: q)
  then have "of_int (round_half_even (x / 2 powr of_int b)) * 2 powr of_int b = x"
    by simp
  then have m: "of_int (round_half_even (x / 2 powr of_int (ulp_exponent x)))
      * 2 powr of_int (ulp_exponent x) = x"
    by (simp only: b_def)
  have "2 powr of_int (53 + e) \<le> (2::real) powr 1023"
    by (rule powr_mono) (use e in simp_all)
  also have "\<dots> < 2 ^ 1024" by (simp flip: powr_realpow)
  finally have "\<bar>x\<bar> < 2 ^ 1024" using xb by linarith
  then have "round64 x = Num x"
    using nz by (simp add: round64_def Let_def m fin_def)
  then show ?thesis by (simp add: x_def)
qed

lemma round64_of_int:
  assumes "k \<noteq> 0" "\<bar>k\<bar> < 2 ^ 53"
  shows "round64 (of_int k) = Num (of_int k)"
  using round64_exact[OF assms, of 0] by simp

lemma round64_absorb:
  assumes "0 \<le> r" and "r < 1 / 2 ^ 53"
  shows "round64 (1 + r) = Num 1"
proof -
  have r1: "r < 1" using assms(2) by (smt (verit) divide_le_eq_1_pos one_le_power)
  have "0 \<le> log 2 (1 + r)" using assms(1) by simp
  moreover have "log 2 (1 + r) < 1" using assms(1) r1 by (simp add: log_less_iff)
  ultimately have "\<lfloor>log 2 \<bar>1 + r\<bar>\<rfloor> = 0" using assms(1) by (simp add: floor_eq_iff)
  then have ue: "ulp_exponent (1 + r) = - 52" by (simp add: ulp_exponent_def)
  have u: "(2 :: real) powr (- 52) = 1 / 2 ^ 52"
    by (simp add: powr_minus_divide flip: powr_realpow)
  define y where "y = (1 + r) * 2 ^ 52"
  have y1: "2 ^ 52 \<le> y" unfolding y_def using assms(1) by simp
  have "r * 2 ^ 52 < 1 / 2" using assms(2) by (simp add: field_simps)
  then have y2: "y < 2 ^ 52 + 1 / 2" unfolding y_def by (simp add: algebra_simps)
  have f: "\<lfloor>y\<rfloor> = 2 ^ 52" using y1 y2 by (simp add: floor_eq_iff)
  have "y - of_int \<lfloor>y\<rfloor> < 1 / 2" unfolding f using y2 by simp
  then have k: "round_half_even y = 2 ^ 52" using f by (simp add: round_half_even_def Let_def)
  have q: "(1 + r) / 2 powr of_int (ulp_exponent (1 + r)) = y"
    unfolding ue y_def by (simp add: u)
  have m: "of_int (round_half_even ((1 + r) / 2 powr of_int (ulp_exponent (1 + r))))
      * 2 powr of_int (ulp_exponent (1 + r)) = (1 :: real)"
    unfolding q k unfolding ue by (simp add: u)
  show ?thesis
    by (simp add: round64_def Let_def m fin_def)
qed


lemma round64_accurate:
  assumes "magnitude_within 1000 x"
  shows "round64 x = Num (val (round64 x)) \<and> \<bar>val (round64 x) - x\<bar> \<le> \<bar>x\<bar> / 2 ^ 53"
proof -
  have "(2 :: real) powr (- 1022) \<le> 2 powr (- 1000)" by (rule powr_mono) simp_all
  also have "\<dots> = 1 / 2 ^ 1000" by (simp add: powr_minus_divide flip: powr_realpow)
  finally have lo: "2 powr (- 1022) \<le> \<bar>x\<bar>" using assms by (simp add: magnitude_within_def)
  have "(2 :: real) ^ 1000 = 2 powr 1000" by (simp flip: powr_realpow)
  also have "\<dots> \<le> 2 powr 1023" by (rule powr_mono) simp_all
  finally have hi: "\<bar>x\<bar> \<le> 2 powr 1023" using assms by (simp add: magnitude_within_def)
  show ?thesis by (rule round64_accurate_powr[OF lo hi])
qed

lemma magnitude_within_mono:
  assumes "magnitude_within j v" and "j \<le> k"
  shows "magnitude_within k v"
proof -
  have a: "(2 :: real) ^ j \<le> 2 ^ k" using assms(2) by (simp add: power_increasing)
  then have "1 / (2 :: real) ^ k \<le> 1 / 2 ^ j" by (simp add: frac_le)
  with a assms(1) show ?thesis unfolding magnitude_within_def by linarith
qed

lemma magnitude_within_mult:
  assumes "magnitude_within j a" and "magnitude_within k b"
  shows "magnitude_within (j + k) (a * b)"
proof -
  have "1 / 2 ^ j * (1 / 2 ^ k) \<le> \<bar>a\<bar> * \<bar>b\<bar>"
    using assms unfolding magnitude_within_def by (intro mult_mono) simp_all
  moreover have "\<bar>a\<bar> * \<bar>b\<bar> \<le> 2 ^ j * 2 ^ k"
    using assms unfolding magnitude_within_def by (intro mult_mono) simp_all
  ultimately show ?thesis
    unfolding magnitude_within_def by (simp add: abs_mult power_add)
qed

lemma magnitude_within_inverse:
  assumes "magnitude_within k b"
  shows "magnitude_within k (1 / b)"
proof -
  have p: "0 < \<bar>b\<bar>" using assms unfolding magnitude_within_def
    by (smt (verit) divide_pos_pos zero_less_power)
  have "1 / \<bar>b\<bar> \<le> 2 ^ k"
    using assms p unfolding magnitude_within_def by (simp add: field_simps)
  moreover have "1 / 2 ^ k \<le> 1 / \<bar>b\<bar>"
    using assms p unfolding magnitude_within_def by (simp add: frac_le)
  ultimately show ?thesis unfolding magnitude_within_def by (simp add: abs_divide)
qed

lemma magnitude_within_div:
  assumes "magnitude_within j a" and "magnitude_within k b"
  shows "magnitude_within (j + k) (a / b)"
  using magnitude_within_mult[OF assms(1) magnitude_within_inverse[OF assms(2)]] by simp

lemma magnitude_within_nonzero: "magnitude_within k v \<Longrightarrow> v \<noteq> 0"
  unfolding magnitude_within_def by (smt (verit) divide_pos_pos zero_less_power abs_zero)

text \<open>What rounding does to a value of moderate magnitude.\<close>

lemma round64_rel:
  assumes "magnitude_within k x" and "k \<le> 1000"
  shows "\<exists>d. \<bar>d\<bar> \<le> 1 / 2 ^ 53 \<and> round64 x = Num (x * (1 + d))
    \<and> magnitude_within (Suc k) (x * (1 + d))"
proof -
  have m: "magnitude_within 1000 x" by (rule magnitude_within_mono[OF assms])
  have nz: "x \<noteq> 0" by (rule magnitude_within_nonzero[OF assms(1)])
  define y where "y = val (round64 x)"
  have r: "round64 x = Num y" and e: "\<bar>y - x\<bar> \<le> \<bar>x\<bar> / 2 ^ 53"
    using round64_accurate[OF m] by (simp_all add: y_def)
  define d where "d = y / x - 1"
  have yx: "y = x * (1 + d)" using nz by (simp add: d_def field_simps)
  have "\<bar>d\<bar> = \<bar>y - x\<bar> / \<bar>x\<bar>" using nz by (simp add: d_def field_simps flip: abs_divide)
  also have "\<dots> \<le> (\<bar>x\<bar> / 2 ^ 53) / \<bar>x\<bar>" using e by (simp add: divide_right_mono)
  also have "\<dots> = 1 / 2 ^ 53" using nz by simp
  finally have d: "\<bar>d\<bar> \<le> 1 / 2 ^ 53" .
  have "\<bar>d\<bar> \<le> 1 / 2" using d by simp
  then have "1 / 2 \<le> 1 + d" and "1 + d \<le> 2" by linarith+
  then have "magnitude_within 1 (1 + d)" unfolding magnitude_within_def by simp
  then have "magnitude_within (k + 1) (x * (1 + d))"
    by (rule magnitude_within_mult[OF assms(1)])
  with d r yx show ?thesis by auto
qed

lemma mul64_Num: "a * b \<noteq> 0 \<Longrightarrow> mul64 (Num a) (Num b) = round64 (a * b)"
  by (simp add: mul64_def js_mul_def fin_def rounded_def)

lemma div64_Num: "a \<noteq> 0 \<Longrightarrow> b \<noteq> 0 \<Longrightarrow> div64 (Num a) (Num b) = round64 (a / b)"
  by (simp add: div64_def js_div_def fin_def rounded_def)

lemma add64_Num: "a + b \<noteq> 0 \<Longrightarrow> add64 (Num a) (Num b) = round64 (a + b)"
  by (auto simp add: add64_def js_add_def rounded_def)

lemma js_sub_Num: "js_sub (Num a) (Num b) = Num (a - b)"
  by (simp add: js_sub_def js_add_def)

lemma sub64_Num: "a \<noteq> b \<Longrightarrow> sub64 (Num a) (Num b) = round64 (a - b)"
  by (simp add: sub64_def js_sub_Num rounded_def)

lemma sub64_same: "sub64 (Num a) (Num a) = Num 0"
  by (simp add: sub64_def js_sub_Num rounded_def)


subsection \<open>The error of the formula\<close>

text \<open>
  Beside the power, the formula takes four rounded operations: two products, a
  difference and a quotient. Each contributes a factor within \<open>2 ^ - 53\<close> of 1.
\<close>

lemma rel_error4:
  fixes d1 d2 d3 d4 :: real
  assumes "\<bar>d1\<bar> \<le> 1 / 2 ^ 53" "\<bar>d2\<bar> \<le> 1 / 2 ^ 53" "\<bar>d3\<bar> \<le> 1 / 2 ^ 53" "\<bar>d4\<bar> \<le> 1 / 2 ^ 53"
  shows "\<bar>(1 + d1) * (1 + d2) * (1 + d4) / (1 + d3) - 1\<bar> \<le> 1 / 2 ^ 50"
proof -
  define e :: real where "e = 1 / 2 ^ 53"
  have e: "0 < e" "e < 1" by (simp_all add: e_def)
  have b: "1 - e \<le> 1 + d1" "1 + d1 \<le> 1 + e" "1 - e \<le> 1 + d2" "1 + d2 \<le> 1 + e"
    "1 - e \<le> 1 + d3" "1 + d3 \<le> 1 + e" "1 - e \<le> 1 + d4" "1 + d4 \<le> 1 + e"
    using assms unfolding e_def by (simp_all add: abs_le_iff)
  define u where "u = (1 + d1) * (1 + d2) * (1 + d4)"
  have l2: "(1 - e) * (1 - e) \<le> (1 + d1) * (1 + d2)"
    using b e by (intro mult_mono) simp_all
  have u2: "(1 + d1) * (1 + d2) \<le> (1 + e) * (1 + e)"
    using b e by (intro mult_mono) simp_all
  have p2: "0 \<le> (1 + d1) * (1 + d2)" using b e by (intro mult_nonneg_nonneg) simp_all
  have l3: "(1 - e) * (1 - e) * (1 - e) \<le> u"
    unfolding u_def using l2 b e by (intro mult_mono) simp_all
  have u3: "u \<le> (1 + e) * (1 + e) * (1 + e)"
    unfolding u_def using u2 b e p2 by (intro mult_mono) simp_all
  have np: "0 \<le> (1 - e) * (1 - e) * (1 - e)" using e by simp
  with l3 have up: "0 \<le> u" by linarith
  have d3p: "0 < 1 + d3" using b e by linarith
  have "u / (1 + d3) \<le> ((1 + e) * (1 + e) * (1 + e)) / (1 - e)"
  proof (rule frac_le[OF _ u3 _ b(5)])
    show "0 < 1 - e" using e by simp
    show "0 \<le> (1 + e) * (1 + e) * (1 + e)" using e by simp
  qed
  also have "\<dots> \<le> 1 + 1 / 2 ^ 50" unfolding e_def by (simp add: field_simps)
  finally have hi: "u / (1 + d3) \<le> 1 + 1 / 2 ^ 50" .
  have "1 - 1 / 2 ^ 50 \<le> ((1 - e) * (1 - e) * (1 - e)) / (1 + e)"
    unfolding e_def by (simp add: field_simps)
  also have "\<dots> \<le> u / (1 + d3)"
    by (rule frac_le[OF up l3 d3p b(6)])
  finally have lo: "1 - 1 / 2 ^ 50 \<le> u / (1 + d3)" .
  define w where "w = u / (1 + d3)"
  define c :: real where "c = 1 / 2 ^ 50"
  have "1 - c \<le> w" and "w \<le> 1 + c" using lo hi unfolding w_def c_def by blast+
  then have "\<bar>w - 1\<bar> \<le> c" by linarith
  then show ?thesis unfolding w_def c_def u_def .
qed



lemma payment_formula_accurate:
  assumes P: "magnitude_within 200 P" and r: "magnitude_within 200 r"
    and x: "magnitude_within 200 x" and x1: "magnitude_within 200 (x - 1)"
  shows "\<exists>y. div64 (mul64 (mul64 (Num P) (Num r)) (Num x)) (sub64 (Num x) (Num 1)) = Num y
    \<and> \<bar>y - P * r * x / (x - 1)\<bar> \<le> \<bar>P * r * x / (x - 1)\<bar> / 2 ^ 50"
proof -
  have m1: "magnitude_within 400 (P * r)" using magnitude_within_mult[OF P r] by simp
  obtain d1 where d1: "\<bar>d1\<bar> \<le> 1 / 2 ^ 53" "round64 (P * r) = Num (P * r * (1 + d1))"
    "magnitude_within 401 (P * r * (1 + d1))"
    using round64_rel[OF m1] by auto
  define a1 where "a1 = P * r * (1 + d1)"
  have s1: "mul64 (Num P) (Num r) = Num a1"
    using mul64_Num[of P r] magnitude_within_nonzero[OF m1] d1(2) by (simp add: a1_def)
  have m2: "magnitude_within 601 (a1 * x)"
    using magnitude_within_mult[OF d1(3) x] by (simp add: a1_def)
  obtain d2 where d2: "\<bar>d2\<bar> \<le> 1 / 2 ^ 53" "round64 (a1 * x) = Num (a1 * x * (1 + d2))"
    "magnitude_within 602 (a1 * x * (1 + d2))"
    using round64_rel[OF m2] by auto
  define a2 where "a2 = a1 * x * (1 + d2)"
  have s2: "mul64 (Num a1) (Num x) = Num a2"
    using mul64_Num[of a1 x] magnitude_within_nonzero[OF m2] d2(2) by (simp add: a2_def)
  obtain d3 where d3: "\<bar>d3\<bar> \<le> 1 / 2 ^ 53" "round64 (x - 1) = Num ((x - 1) * (1 + d3))"
    "magnitude_within 201 ((x - 1) * (1 + d3))"
    using round64_rel[OF x1] by auto
  define q where "q = (x - 1) * (1 + d3)"
  have x1n: "x - 1 \<noteq> 0" by (rule magnitude_within_nonzero[OF x1])
  have s3: "sub64 (Num x) (Num 1) = Num q"
    using sub64_Num[of x 1] x1n d3(2) by (simp add: q_def)
  have m4: "magnitude_within 803 (a2 / q)"
    using magnitude_within_div[OF d2(3) d3(3)] by (simp add: a2_def q_def)
  obtain d4 where d4: "\<bar>d4\<bar> \<le> 1 / 2 ^ 53" "round64 (a2 / q) = Num (a2 / q * (1 + d4))"
    using round64_rel[OF m4] by auto
  have a2n: "a2 \<noteq> 0" using magnitude_within_nonzero[OF d2(3)] by (simp add: a2_def)
  have qn: "q \<noteq> 0" using magnitude_within_nonzero[OF d3(3)] by (simp add: q_def)
  have s4: "div64 (Num a2) (Num q) = Num (a2 / q * (1 + d4))"
    using div64_Num[OF a2n qn] d4(2) by simp
  define F where "F = P * r * x / (x - 1)"
  define t where "t = (1 + d1) * (1 + d2) * (1 + d4) / (1 + d3)"
  have t: "\<bar>t - 1\<bar> \<le> 1 / 2 ^ 50" unfolding t_def by (rule rel_error4[OF d1(1) d2(1) d3(1) d4(1)])
  have d3n: "1 + d3 \<noteq> 0" using qn by (simp add: q_def)
  have "a2 / q * (1 + d4) = F * t"
    unfolding a2_def a1_def q_def F_def t_def using x1n d3n by (simp add: field_simps)
  then have y: "div64 (mul64 (mul64 (Num P) (Num r)) (Num x)) (sub64 (Num x) (Num 1)) = Num (F * t)"
    by (simp add: s1 s2 s3 s4)
  have "\<bar>F * t - F\<bar> = \<bar>F\<bar> * \<bar>t - 1\<bar>" by (simp add: algebra_simps flip: abs_mult)
  also have "\<dots> \<le> \<bar>F\<bar> * (1 / 2 ^ 50)" using t by (intro mult_left_mono) simp_all
  finally have "\<bar>F * t - F\<bar> \<le> \<bar>F\<bar> / 2 ^ 50" by simp
  with y show ?thesis unfolding F_def by blast
qed


lemma rel_error2:
  fixes d1 d2 :: real
  assumes "\<bar>d1\<bar> \<le> 1 / 2 ^ 53" "\<bar>d2\<bar> \<le> 1 / 2 ^ 53"
  shows "1 - 1 / 2 ^ 51 \<le> (1 + d1) * (1 + d2) \<and> (1 + d1) * (1 + d2) \<le> 1 + 1 / 2 ^ 51"
proof -
  define e :: real where "e = 1 / 2 ^ 53"
  have e: "0 < e" "e < 1" by (simp_all add: e_def)
  have b: "1 - e \<le> 1 + d1" "1 + d1 \<le> 1 + e" "1 - e \<le> 1 + d2" "1 + d2 \<le> 1 + e"
    using assms unfolding e_def by (simp_all add: abs_le_iff)
  have l2: "(1 - e) * (1 - e) \<le> (1 + d1) * (1 + d2)"
    using b e by (intro mult_mono) simp_all
  have u2: "(1 + d1) * (1 + d2) \<le> (1 + e) * (1 + e)"
    using b e by (intro mult_mono) simp_all
  have "1 - 1 / 2 ^ 51 \<le> (1 - e) * (1 - e)" unfolding e_def by simp
  moreover have "(1 + e) * (1 + e) \<le> 1 + 1 / 2 ^ 51" unfolding e_def by simp
  ultimately show ?thesis using l2 u2 by linarith
qed

lemma monthlyRate_enclosure:
  assumes "0 < R" and "magnitude_within 100 R"
  shows "\<exists>r. div64 (div64 (Num R) (Num 100)) (Num 12) = Num r
    \<and> R / 1200 * (1 - 1 / 2 ^ 51) \<le> r \<and> r \<le> R / 1200 * (1 + 1 / 2 ^ 51)"
proof -
  have "magnitude_within 7 100" by (simp add: magnitude_within_def)
  from magnitude_within_div[OF assms(2) this]
  have m1: "magnitude_within 107 (R / 100)" by simp
  obtain d1 where d1: "\<bar>d1\<bar> \<le> 1 / 2 ^ 53" "round64 (R / 100) = Num (R / 100 * (1 + d1))"
    "magnitude_within 108 (R / 100 * (1 + d1))"
    using round64_rel[OF m1] by auto
  define a where "a = R / 100 * (1 + d1)"
  have Rn: "R \<noteq> 0" using assms(1) by simp
  have s1: "div64 (Num R) (Num 100) = Num a"
    using div64_Num[of R 100] Rn d1(2) by (simp add: a_def)
  have "magnitude_within 4 12" by (simp add: magnitude_within_def)
  from magnitude_within_div[OF d1(3) this]
  have m2: "magnitude_within 112 (a / 12)" by (simp add: a_def)
  obtain d2 where d2: "\<bar>d2\<bar> \<le> 1 / 2 ^ 53" "round64 (a / 12) = Num (a / 12 * (1 + d2))"
    using round64_rel[OF m2] by auto
  have an: "a \<noteq> 0" using magnitude_within_nonzero[OF d1(3)] by (simp add: a_def)
  have s2: "div64 (Num a) (Num 12) = Num (a / 12 * (1 + d2))"
    using div64_Num[of a 12] an d2(2) by simp
  define t where "t = (1 + d1) * (1 + d2)"
  have t: "1 - 1 / 2 ^ 51 \<le> t" "t \<le> 1 + 1 / 2 ^ 51"
    using rel_error2[OF d1(1) d2(1)] by (simp_all add: t_def)
  have eq: "a / 12 * (1 + d2) = R / 1200 * t" by (simp add: a_def t_def)
  have p: "0 \<le> R / 1200" using assms(1) by simp
  have "R / 1200 * (1 - 1 / 2 ^ 51) \<le> R / 1200 * t" by (rule mult_left_mono[OF t(1) p])
  moreover have "R / 1200 * t \<le> R / 1200 * (1 + 1 / 2 ^ 51)" by (rule mult_left_mono[OF t(2) p])
  moreover have "div64 (div64 (Num R) (Num 100)) (Num 12) = Num (R / 1200 * t)"
    by (simp only: s1 s2 eq)
  ultimately show ?thesis by blast
qed

lemma base_enclosure:
  assumes "0 < r" and "r \<le> 1"
  shows "\<exists>b. add64 (Num 1) (Num r) = Num b
    \<and> (1 + r) * (1 - 1 / 2 ^ 53) \<le> b \<and> b \<le> (1 + r) * (1 + 1 / 2 ^ 53)"
proof -
  have m: "magnitude_within 1 (1 + r)" using assms by (simp add: magnitude_within_def)
  obtain d where d: "\<bar>d\<bar> \<le> 1 / 2 ^ 53" "round64 (1 + r) = Num ((1 + r) * (1 + d))"
    using round64_rel[OF m] by auto
  have s: "add64 (Num 1) (Num r) = Num ((1 + r) * (1 + d))"
    using add64_Num[of 1 r] assms(1) d(2) by simp
  have p: "0 \<le> 1 + r" using assms(1) by simp
  have lo: "1 - 1 / 2 ^ 53 \<le> 1 + d" and hi: "1 + d \<le> 1 + 1 / 2 ^ 53"
    using d(1) by linarith+
  have "(1 + r) * (1 - 1 / 2 ^ 53) \<le> (1 + r) * (1 + d)" by (rule mult_left_mono[OF lo p])
  moreover have "(1 + r) * (1 + d) \<le> (1 + r) * (1 + 1 / 2 ^ 53)"
    by (rule mult_left_mono[OF hi p])
  ultimately show ?thesis using s by blast
qed

lemma is_integral_of_nat: "is_integral (real n)"
  by (simp add: is_integral_def)

lemma Math_pow_finite:
  assumes "b \<noteq> 0" and "e \<noteq> 0" and "0 \<le> b \<or> is_integral e"
  shows "Math_pow pw (Num b) (Num e) = pw b e"
  using assms by (auto simp add: Math_pow_def)

lemma power_enclosure:
  assumes "pow_accurate pw" and "1 \<le> b" and "b \<le> 2" and "0 < n" and "n \<le> 1000"
  shows "\<exists>x. Math_pow pw (Num b) (Num (real n)) = Num x
    \<and> b ^ n * (1 - 1 / 10 ^ 9) \<le> x \<and> x \<le> b ^ n * (1 + 1 / 10 ^ 9)"
proof -
  define x where "x = val (pw b (real n))"
  have a: "pw b (real n) = Num x" and e: "\<bar>x - b ^ n\<bar> \<le> b ^ n / 10 ^ 9"
    using assms unfolding pow_accurate_def x_def by blast+
  have "Math_pow pw (Num b) (Num (real n)) = Num x"
    using Math_pow_finite[of b "real n" pw] assms(2,4) a by simp
  moreover have "b ^ n * (1 - 1 / 10 ^ 9) = b ^ n - b ^ n / 10 ^ 9"
    and "b ^ n * (1 + 1 / 10 ^ 9) = b ^ n + b ^ n / 10 ^ 9"
    by (simp_all add: algebra_simps)
  moreover have "b ^ n - b ^ n / 10 ^ 9 \<le> x" and "x \<le> b ^ n + b ^ n / 10 ^ 9"
    using e by linarith+
  ultimately show ?thesis by (metis (no_types))
qed

lemma ratio_enclosure:
  fixes x :: real
  assumes "xl \<le> x" and "x \<le> xu" and "1 < xl"
  shows "1 + 1 / (xu - 1) \<le> x / (x - 1) \<and> x / (x - 1) \<le> 1 + 1 / (xl - 1)"
proof -
  have p: "0 < x - 1" "0 < xl - 1" "0 < xu - 1" using assms by simp_all
  have g: "x / (x - 1) = 1 + 1 / (x - 1)" using p by (simp add: field_simps)
  have "1 / (xu - 1) \<le> 1 / (x - 1)" using assms p by (intro divide_left_mono) simp_all
  moreover have "1 / (x - 1) \<le> 1 / (xl - 1)" using assms p by (intro divide_left_mono) simp_all
  ultimately show ?thesis unfolding g by simp
qed

lemma payment_enclosure:
  assumes pa: "pow_accurate pw" and n: "0 < n" "n \<le> 1000"
    and k: "0 < k" "k < 2 ^ 53"
    and R: "0 < R" "magnitude_within 100 R"
    and A: "1 \<le> A" "A \<le> (1 + R / 1200 * (1 - 1 / 2 ^ 51)) * (1 - 1 / 2 ^ 53)"
    and B: "B \<le> 2" "(1 + R / 1200 * (1 + 1 / 2 ^ 51)) * (1 + 1 / 2 ^ 53) \<le> B"
    and xl: "2 \<le> xl" "xl \<le> A ^ n * (1 - 1 / 10 ^ 9)"
    and xu: "xu \<le> 2 ^ 199" "B ^ n * (1 + 1 / 10 ^ 9) \<le> xu"
  shows "\<exists>y. calculatePayment pw (JNum (Num (of_int k))) (JNum (Num 0)) (JNum (Num R))
               (JNum (Num (real n))) = Num y
    \<and> of_int k * (R / 1200 * (1 - 1 / 2 ^ 51)) * (1 + 1 / (xu - 1)) * (1 - 1 / 2 ^ 50) \<le> y
    \<and> y \<le> of_int k * (R / 1200 * (1 + 1 / 2 ^ 51)) * (1 + 1 / (xl - 1)) * (1 + 1 / 2 ^ 50)"
proof -
  define P :: real where "P = of_int k"
  have P0: "0 < P" using k(1) by (simp add: P_def)
  have sP: "sub64 (Num P) (Num 0) = Num P"
    using sub64_Num[of P 0] P0 round64_of_int[of k] k by (simp add: P_def)
  obtain r where r: "div64 (div64 (Num R) (Num 100)) (Num 12) = Num r"
    "R / 1200 * (1 - 1 / 2 ^ 51) \<le> r" "r \<le> R / 1200 * (1 + 1 / 2 ^ 51)"
    using monthlyRate_enclosure[OF R] by blast
  have Rm: "1 / 2 ^ 100 \<le> R" "R \<le> 2 ^ 100" using R by (simp_all add: magnitude_within_def)
  have "0 < R / 1200 * (1 - 1 / 2 ^ 51)" using R(1) by simp
  with r(2) have r0: "0 < r" by linarith
  have "1 / 2 ^ 100 / 1200 * (1 - 1 / 2 ^ 51) \<le> R / 1200 * (1 - 1 / 2 ^ 51)"
    using Rm(1) by (intro mult_right_mono divide_right_mono) simp_all
  moreover have "(1 :: real) / 2 ^ 200 \<le> 1 / 2 ^ 100 / 1200 * (1 - 1 / 2 ^ 51)" by simp
  ultimately have rlo: "1 / 2 ^ 200 \<le> r" using r(2) by linarith
  define ru' where "ru' = R / 1200 * (1 + 1 / 2 ^ 51)"
  define c where "c = (1 + ru') * (1 + 1 / 2 ^ 53)"
  have "0 \<le> 1 + ru'" using R(1) by (simp add: ru'_def)
  then have "(1 + ru') * 1 \<le> c" unfolding c_def by (intro mult_left_mono) simp_all
  then have "1 + ru' \<le> c" by simp
  moreover have "1 + r \<le> 1 + ru'" using r(3) by (simp add: ru'_def)
  moreover have "c \<le> 2" unfolding c_def ru'_def using B by linarith
  ultimately have r1: "r \<le> 1" by linarith
  have rm: "magnitude_within 200 r" using rlo r1 r0 by (simp add: magnitude_within_def)
  obtain b where b: "add64 (Num 1) (Num r) = Num b"
    "(1 + r) * (1 - 1 / 2 ^ 53) \<le> b" "b \<le> (1 + r) * (1 + 1 / 2 ^ 53)"
    using base_enclosure[OF r0 r1] by blast
  have "(1 + R / 1200 * (1 - 1 / 2 ^ 51)) * (1 - 1 / 2 ^ 53) \<le> (1 + r) * (1 - 1 / 2 ^ 53)"
    using r(2) by (intro mult_right_mono) simp_all
  with A b(2) have bA: "A \<le> b" by linarith
  have "(1 + r) * (1 + 1 / 2 ^ 53) \<le> (1 + R / 1200 * (1 + 1 / 2 ^ 51)) * (1 + 1 / 2 ^ 53)"
    using r(3) by (intro mult_right_mono) simp_all
  with B b(3) have bB: "b \<le> B" by linarith
  have b1: "1 \<le> b" "b \<le> 2" using bA bB A(1) B(1) by linarith+
  obtain x where x: "Math_pow pw (Num b) (Num (real n)) = Num x"
    "b ^ n * (1 - 1 / 10 ^ 9) \<le> x" "x \<le> b ^ n * (1 + 1 / 10 ^ 9)"
    using power_enclosure[OF pa b1 n] by blast
  have "A ^ n \<le> b ^ n" using bA A(1) by (intro power_mono) simp_all
  then have "A ^ n * (1 - 1 / 10 ^ 9) \<le> b ^ n * (1 - 1 / 10 ^ 9)"
    by (intro mult_right_mono) simp_all
  with xl x(2) have xlo: "xl \<le> x" by linarith
  have "b ^ n \<le> B ^ n" using bB b1 by (intro power_mono) simp_all
  then have "b ^ n * (1 + 1 / 10 ^ 9) \<le> B ^ n * (1 + 1 / 10 ^ 9)"
    by (intro mult_right_mono) simp_all
  with xu x(3) have xhi: "x \<le> xu" by linarith
  have x2: "2 \<le> x" using xlo xl(1) by linarith
  have "(2 :: real) ^ 199 \<le> 2 ^ 200" by simp
  then have xh: "x \<le> 2 ^ 200" using xhi xu(1) by linarith
  have xm: "magnitude_within 200 x" and x1m: "magnitude_within 200 (x - 1)"
    using x2 xh by (simp_all add: magnitude_within_def)
  have "P \<le> 2 ^ 53" using k(2) unfolding P_def
    by (metis less_imp_le of_int_le_numeral_power_cancel_iff)
  moreover have "(2 :: real) ^ 53 \<le> 2 ^ 200" by simp
  moreover have "1 \<le> P" using k(1) by (simp add: P_def)
  ultimately have Pm: "magnitude_within 200 P" by (simp add: magnitude_within_def)
  define F where "F = P * r * x / (x - 1)"
  obtain y where y: "div64 (mul64 (mul64 (Num P) (Num r)) (Num x)) (sub64 (Num x) (Num 1)) = Num y"
    "\<bar>y - F\<bar> \<le> \<bar>F\<bar> / 2 ^ 50"
    using payment_formula_accurate[OF Pm rm xm x1m] unfolding F_def by blast
  have nz: "\<not> num_eq (Num r) (Num 0)" using r0 by (simp add: num_eq_def)
  have c: "calculatePayment pw (JNum (Num P)) (JNum (Num 0)) (JNum (Num R)) (JNum (Num (real n)))
      = Num y"
    by (simp add: calculatePayment_def Let_def sP r(1) nz b(1) x(1) y(1))
  define g where "g = x / (x - 1)"
  have xl1: "1 < xl" using xl(1) by simp
  have g: "1 + 1 / (xu - 1) \<le> g" "g \<le> 1 + 1 / (xl - 1)"
    using ratio_enclosure[OF xlo xhi xl1] by (simp_all add: g_def)
  have g0: "0 \<le> 1 + 1 / (xu - 1)" using xhi x2 by simp
  define rl where "rl = R / 1200 * (1 - 1 / 2 ^ 51)"
  define ru where "ru = R / 1200 * (1 + 1 / 2 ^ 51)"
  have rl0: "0 \<le> rl" using R(1) by (simp add: rl_def)
  have rlr: "rl \<le> r" and rur: "r \<le> ru" using r(2,3) by (simp_all add: rl_def ru_def)
  have Fg: "F = P * r * g" by (simp add: F_def g_def)
  have Pr0: "0 \<le> P * rl" using P0 rl0 by simp
  have a1: "P * rl \<le> P * r" using rlr P0 by simp
  have a2: "0 \<le> P * r" using P0 r0 by simp
  have lo: "P * rl * (1 + 1 / (xu - 1)) \<le> F"
    unfolding Fg by (rule mult_mono[OF a1 g(1) a2 g0])
  have b1': "P * r \<le> P * ru" using rur P0 by simp
  have b2: "0 \<le> P * ru" using a2 b1' by linarith
  have b3: "0 \<le> g" using g(1) g0 by linarith
  have hi: "F \<le> P * ru * (1 + 1 / (xl - 1))"
    unfolding Fg by (rule mult_mono[OF b1' g(2) b2 b3])
  have "0 \<le> P * rl * (1 + 1 / (xu - 1))" by (rule mult_nonneg_nonneg[OF Pr0 g0])
  with lo have F0: "0 \<le> F" by linarith
  have aF: "\<bar>F\<bar> = F" using F0 by simp
  define q where "q = F / 2 ^ 50"
  have yq: "\<bar>y - F\<bar> \<le> q" using y(2) unfolding aF q_def .
  have e1: "F * (1 - 1 / 2 ^ 50) = F - q" and e2: "F * (1 + 1 / 2 ^ 50) = F + q"
    by (simp_all add: q_def algebra_simps)
  have "F - q \<le> y" and "y \<le> F + q" using yq by linarith+
  then have "F * (1 - 1 / 2 ^ 50) \<le> y" and "y \<le> F * (1 + 1 / 2 ^ 50)"
    unfolding e1 e2 .
  moreover have "P * rl * (1 + 1 / (xu - 1)) * (1 - 1 / 2 ^ 50) \<le> F * (1 - 1 / 2 ^ 50)"
    using lo by (intro mult_right_mono) simp_all
  moreover have "F * (1 + 1 / 2 ^ 50) \<le> P * ru * (1 + 1 / (xl - 1)) * (1 + 1 / 2 ^ 50)"
    using hi by (intro mult_right_mono) simp_all
  ultimately have "P * rl * (1 + 1 / (xu - 1)) * (1 - 1 / 2 ^ 50) \<le> y"
    and "y \<le> P * ru * (1 + 1 / (xl - 1)) * (1 + 1 / 2 ^ 50)" by linarith+
  with c show ?thesis unfolding P_def rl_def ru_def by blast
qed


subsection \<open>The example and the infinite results\<close>

lemma pow_double: "(a :: real) ^ (2 * n) = a ^ n * a ^ n"
  by (simp add: power_add mult_2)

lemma pow_lower_double:
  fixes a :: real
  assumes "l \<le> a ^ n" and "0 \<le> l" and "l' \<le> l * l"
  shows "l' \<le> a ^ (2 * n)"
proof -
  have "l * l \<le> a ^ n * a ^ n" using assms by (intro mult_mono) simp_all
  then show ?thesis using assms(3) unfolding pow_double by linarith
qed

lemma pow_upper_double:
  fixes a :: real
  assumes "a ^ n \<le> u" and "0 \<le> a" and "u * u \<le> u'"
  shows "a ^ (2 * n) \<le> u'"
proof -
  have p: "0 \<le> a ^ n" using assms(2) by simp
  then have u: "0 \<le> u" using assms(1) by linarith
  have "a ^ n * a ^ n \<le> u * u" by (rule mult_mono[OF assms(1) assms(1) u p])
  then show ?thesis using assms(3) unfolding pow_double by linarith
qed

lemma pow360_lower: "(6.02255 :: real) \<le> (100499999 / 100000000) ^ 360"
proof -
  let ?a = "100499999 / 100000000 :: real"
  have b45: "1.25162026 \<le> ?a ^ 45" by (simp add: power_divide)
  have b90: "1.566553275 \<le> ?a ^ (2 * 45)" by (rule pow_lower_double[OF b45]) simp_all
  have b180: "2.454089163 \<le> ?a ^ (2 * (2 * 45))" by (rule pow_lower_double[OF b90]) simp_all
  have "6.02255 \<le> ?a ^ (2 * (2 * (2 * 45)))" by (rule pow_lower_double[OF b180]) simp_all
  then show ?thesis by simp
qed

lemma pow360_upper: "(100500001 / 100000000 :: real) ^ 360 \<le> 6.0226"
proof -
  let ?a = "100500001 / 100000000 :: real"
  have b45: "?a ^ 45 \<le> 1.251621382" by (simp add: power_divide)
  have b90: "?a ^ (2 * 45) \<le> 1.566556084" by (rule pow_upper_double[OF b45]) simp_all
  have b180: "?a ^ (2 * (2 * 45)) \<le> 2.454097965" by (rule pow_upper_double[OF b90]) simp_all
  have "?a ^ (2 * (2 * (2 * 45))) \<le> 6.0226" by (rule pow_upper_double[OF b180]) simp_all
  then show ?thesis by simp
qed


lemma round64_sign:
  assumes "magnitude_within k x" and "k \<le> 1000"
  shows "\<exists>y. round64 x = Num y \<and> (0 < y \<longleftrightarrow> 0 < x) \<and> y \<noteq> 0 \<and> magnitude_within (Suc k) y"
proof -
  obtain d where d: "\<bar>d\<bar> \<le> 1 / 2 ^ 53" "round64 x = Num (x * (1 + d))"
    "magnitude_within (Suc k) (x * (1 + d))"
    using round64_rel[OF assms] by blast
  have "\<bar>d\<bar> \<le> 1 / 2" using d(1) by simp
  then have p: "0 < 1 + d" by linarith
  have "0 < x * (1 + d) \<longleftrightarrow> 0 < x" using p by (simp add: zero_less_mult_iff)
  moreover have "x * (1 + d) \<noteq> 0" by (rule magnitude_within_nonzero[OF d(3)])
  ultimately show ?thesis using d(2,3) by blast
qed

lemma real_pow_of_nat: "real_pow b (real n) = b ^ n"
  by (simp add: real_pow_def is_integral_of_nat)

lemma pow_correctly_rounded_nat:
  "b \<noteq> 0 \<Longrightarrow> pow_correctly_rounded b (real n) = round64 (b ^ n)"
  by (simp add: pow_correctly_rounded_def real_pow_of_nat rounded_def)

lemma pow_correctly_rounded_accurate: "pow_accurate pow_correctly_rounded"
  unfolding pow_accurate_def
proof (intro allI impI)
  fix b :: real and n :: nat
  assume h: "1 \<le> b \<and> b \<le> 2 \<and> 0 < n \<and> n \<le> 1000"
  have l: "1 \<le> b ^ n" using h by simp
  have "b ^ n \<le> 2 ^ n" using h by (intro power_mono) simp_all
  also have "\<dots> \<le> (2 :: real) ^ 1000" using h by (intro power_increasing) simp_all
  finally have u: "b ^ n \<le> 2 ^ 1000" .
  have "(1 :: real) / 2 ^ 1000 \<le> 1" by simp
  with l u have m: "magnitude_within 1000 (b ^ n)" unfolding magnitude_within_def by simp
  have e: "pow_correctly_rounded b (real n) = round64 (b ^ n)"
    using h by (intro pow_correctly_rounded_nat) simp
  have "b ^ n / 2 ^ 53 \<le> b ^ n / 10 ^ 9" using l by (intro divide_left_mono) simp_all
  then show "pow_correctly_rounded b (real n) = Num (val (pow_correctly_rounded b (real n)))
      \<and> \<bar>val (pow_correctly_rounded b (real n)) - b ^ n\<bar> \<le> b ^ n / 10 ^ 9"
    using round64_accurate[OF m] l unfolding e by (smt (verit))
qed

lemma round64_one: "round64 1 = Num 1"
  using round64_of_int[of 1] by simp

lemma pow_correctly_rounded_one: "pow_correctly_rounded 1 t = Num 1"
  by (simp add: pow_correctly_rounded_def real_pow_def rounded_def round64_one)

lemma pow_correctly_rounded_minus_one: "pow_correctly_rounded (- 1) 360 = Num 1"
  using pow_correctly_rounded_nat[of "- 1" 360] by (simp add: round64_one)

lemma calculatePayment_zero_rate:
  "calculatePayment pw (JNum (Num L)) (JNum (Num D)) (JNum (Num 0)) (JNum (Num t))
     = div64 (sub64 (Num L) (Num D)) (Num t)"
proof -
  have "div64 (div64 (Num 0) (Num 100)) (Num 12) = Num 0"
    by (simp add: div64_def js_div_def fin_def js_zero_def rounded_def)
  then show ?thesis
    by (simp add: calculatePayment_def Let_def num_eq_def)
qed

lemma monthlyRate_pole: "div64 (div64 (Num (- 2400)) (Num 100)) (Num 12) = Num (- 2)"
proof -
  have "div64 (Num (- 2400)) (Num 100) = Num (- 24)"
    using div64_Num[of "- 2400" 100] round64_of_int[of "- 24"] by simp
  moreover have "div64 (Num (- 24)) (Num 12) = Num (- 2)"
    using div64_Num[of "- 24" 12] round64_of_int[of "- 2"] by simp
  ultimately show ?thesis by simp
qed

lemma calculatePayment_pole:
  assumes pw: "pw (- 1) 360 = Num 1" and L: "magnitude_within 100 L"
  shows "calculatePayment pw (JNum (Num L)) (JNum (Num 0)) (JNum (Num (- 2400))) (JNum (Num 360))
     = (if 0 < L then NegInf else PosInf)"
proof -
  have Ln: "L \<noteq> 0" by (rule magnitude_within_nonzero[OF L])
  obtain p where p: "round64 L = Num p" "0 < p \<longleftrightarrow> 0 < L" "p \<noteq> 0" "magnitude_within 101 p"
    using round64_sign[OF L] by auto
  have sP: "sub64 (Num L) (Num 0) = Num p" using sub64_Num[of L 0] Ln p(1) by simp
  have "magnitude_within 1 (- 2)" by (simp add: magnitude_within_def)
  from magnitude_within_mult[OF p(4) this] have m1: "magnitude_within 102 (p * (- 2))" by simp
  obtain q where q: "round64 (p * (- 2)) = Num q" "0 < q \<longleftrightarrow> 0 < p * (- 2)" "q \<noteq> 0"
    "magnitude_within 103 q"
    using round64_sign[OF m1] by auto
  have s1: "mul64 (Num p) (Num (- 2)) = Num q" using mul64_Num[of p "- 2"] p(3) q(1) by simp
  obtain q' where q': "round64 q = Num q'" "0 < q' \<longleftrightarrow> 0 < q" "q' \<noteq> 0"
    using round64_sign[OF q(4)] by auto
  have s2: "mul64 (Num q) (Num 1) = Num q'" using mul64_Num[of q 1] q(3) q'(1) by simp
  have b: "add64 (Num 1) (Num (- 2)) = Num (- 1)"
    using add64_Num[of 1 "- 2"] round64_of_int[of "- 1"] by simp
  have x: "Math_pow pw (Num (- 1)) (Num 360) = Num 1"
    using Math_pow_finite[of "- 1" 360 pw] is_integral_of_nat[of 360] pw by simp
  have s4: "div64 (Num q') (Num 0) = (if 0 < L then NegInf else PosInf)"
    using q'(2,3) q(2) p(2,3)
    by (auto simp add: div64_def js_div_def js_inf_def rounded_def zero_less_mult_iff)
  have nz: "\<not> num_eq (Num (- 2)) (Num 0)" by (simp add: num_eq_def)
  show ?thesis
    by (simp add: calculatePayment_def Let_def sP monthlyRate_pole nz b x s1 s2 sub64_same s4)
qed

lemma calculatePayment_pole_zero:
  assumes pw: "pw (- 1) 360 = Num 1"
  shows "calculatePayment pw (JNum (Num 0)) (JNum (Num 0)) (JNum (Num (- 2400))) (JNum (Num 360))
     = Num 0"
proof -
  have b: "add64 (Num 1) (Num (- 2)) = Num (- 1)"
    using add64_Num[of 1 "- 2"] round64_of_int[of "- 1"] by simp
  have x: "Math_pow pw (Num (- 1)) (Num 360) = Num 1"
    using Math_pow_finite[of "- 1" 360 pw] is_integral_of_nat[of 360] pw by simp
  have nz: "\<not> num_eq (Num (- 2)) (Num 0)" by (simp add: num_eq_def)
  have s1: "mul64 (Num 0) (Num (- 2)) = NegZero"
    by (simp add: mul64_def js_mul_def fin_def js_zero_def rounded_def)
  have s2: "mul64 NegZero (Num 1) = NegZero"
    by (simp add: mul64_def js_mul_def fin_def js_zero_def rounded_def)
  have s4: "div64 NegZero (Num 0) = NaN"
    by (simp add: div64_def js_div_def rounded_def)
  show ?thesis
    by (simp add: calculatePayment_def Let_def sub64_same monthlyRate_pole nz b x s1 s2 s4)
qed

lemma calculatePayment_absorbed:
  assumes pw: "pw 1 t = Num 1" and t: "t \<noteq> 0"
    and P: "0 < L - D" "magnitude_within 100 (L - D)"
    and R: "1 / 2 ^ 100 \<le> R" "R \<le> 1 / 10 ^ 13"
  shows "calculatePayment pw (JNum (Num L)) (JNum (Num D)) (JNum (Num R)) (JNum (Num t)) = PosInf"
proof -
  have R0: "0 < R" using R(1) by (smt (verit) divide_pos_pos zero_less_power)
  have "R \<le> 2 ^ 100" using R(2) by (smt (verit) divide_le_eq_1_pos one_le_power)
  with R(1) have Rm: "magnitude_within 100 R" using R0 by (simp add: magnitude_within_def)
  obtain r where r: "div64 (div64 (Num R) (Num 100)) (Num 12) = Num r"
    "R / 1200 * (1 - 1 / 2 ^ 51) \<le> r" "r \<le> R / 1200 * (1 + 1 / 2 ^ 51)"
    using monthlyRate_enclosure[OF R0 Rm] by blast
  have "1 / 2 ^ 100 / 1200 * (1 - 1 / 2 ^ 51) \<le> R / 1200 * (1 - 1 / 2 ^ 51)"
    using R(1) by (intro mult_right_mono divide_right_mono) simp_all
  moreover have "(1 :: real) / 2 ^ 112 \<le> 1 / 2 ^ 100 / 1200 * (1 - 1 / 2 ^ 51)" by simp
  ultimately have rlo: "1 / 2 ^ 112 \<le> r" using r(2) by linarith
  then have r0: "0 < r" by (smt (verit) divide_pos_pos zero_less_power)
  have "R / 1200 * (1 + 1 / 2 ^ 51) \<le> 1 / 10 ^ 13 / 1200 * (1 + 1 / 2 ^ 51)"
    using R(2) by (intro mult_right_mono divide_right_mono) simp_all
  moreover have "(1 :: real) / 10 ^ 13 / 1200 * (1 + 1 / 2 ^ 51) < 1 / 2 ^ 53" by simp
  ultimately have rhi: "r < 1 / 2 ^ 53" using r(3) by linarith
  have "r \<le> 2 ^ 112" using rhi by (smt (verit) divide_le_eq_1_pos one_le_power)
  with rlo r0 have rm: "magnitude_within 112 r" by (simp add: magnitude_within_def)
  have nz: "\<not> num_eq (Num r) (Num 0)" using r0 by (simp add: num_eq_def)
  have b: "add64 (Num 1) (Num r) = Num 1"
    using add64_Num[of 1 r] r0 round64_absorb[of r] rhi by simp
  have x: "Math_pow pw (Num 1) (Num t) = Num 1"
    using Math_pow_finite[of 1 t pw] t pw by simp
  obtain p where p: "round64 (L - D) = Num p" "0 < p \<longleftrightarrow> 0 < L - D" "p \<noteq> 0"
    "magnitude_within 101 p"
    using round64_sign[OF P(2)] by auto
  have sP: "sub64 (Num L) (Num D) = Num p" using sub64_Num[of L D] P(1) p(1) by simp
  from magnitude_within_mult[OF p(4) rm] have m1: "magnitude_within 213 (p * r)" by simp
  obtain c where c: "round64 (p * r) = Num c" "0 < c \<longleftrightarrow> 0 < p * r" "c \<noteq> 0"
    "magnitude_within 214 c"
    using round64_sign[OF m1] by auto
  have s1: "mul64 (Num p) (Num r) = Num c" using mul64_Num[of p r] p(3) r0 c(1) by simp
  obtain c' where c': "round64 c = Num c'" "0 < c' \<longleftrightarrow> 0 < c" "c' \<noteq> 0"
    using round64_sign[OF c(4)] by auto
  have s2: "mul64 (Num c) (Num 1) = Num c'" using mul64_Num[of c 1] c(3) c'(1) by simp
  have "0 < c'" using c'(2) c(2) p(2) P(1) r0 by simp
  then have s4: "div64 (Num c') (Num 0) = PosInf"
    by (simp add: div64_def js_div_def js_inf_def rounded_def)
  show ?thesis
    by (simp add: calculatePayment_def Let_def sP r(1) nz b x s1 s2 sub64_same s4)
qed

lemma calculatePayment_example:
  assumes "pow_accurate pw"
  shows "\<exists>y. calculatePayment pw (JNum (Num 300000)) (JNum (Num 0)) (JNum (Num 6))
      (JNum (Num 360)) = Num y \<and> \<bar>y - 1798.65\<bar> \<le> 0.01"
proof -
  let ?A = "100499999 / 100000000 :: real" and ?B = "100500001 / 100000000 :: real"
  have n: "(0 :: nat) < 360" "(360 :: nat) \<le> 1000" by simp_all
  have k: "(0 :: int) < 300000" "(300000 :: int) < 2 ^ 53" by simp_all
  have R: "(0 :: real) < 6" "magnitude_within 100 6" by (simp_all add: magnitude_within_def)
  have A: "1 \<le> ?A" "?A \<le> (1 + 6 / 1200 * (1 - 1 / 2 ^ 51)) * (1 - 1 / 2 ^ 53)" by simp_all
  have B: "?B \<le> 2" "(1 + 6 / 1200 * (1 + 1 / 2 ^ 51)) * (1 + 1 / 2 ^ 53) \<le> ?B" by simp_all
  have l1: "6.02255 * (1 - 1 / 10 ^ 9) \<le> ?A ^ 360 * (1 - 1 / 10 ^ 9)"
    using pow360_lower by (intro mult_right_mono) simp_all
  have l2: "(6.0225 :: real) \<le> 6.02255 * (1 - 1 / 10 ^ 9)" by simp
  have xl: "(2 :: real) \<le> 6.0225" "6.0225 \<le> ?A ^ 360 * (1 - 1 / 10 ^ 9)"
    by simp (rule order_trans[OF l2 l1])
  have u1: "?B ^ 360 * (1 + 1 / 10 ^ 9) \<le> 6.0226 * (1 + 1 / 10 ^ 9)"
    using pow360_upper by (intro mult_right_mono) simp_all
  have u2: "6.0226 * (1 + 1 / 10 ^ 9) \<le> (6.0227 :: real)" by simp
  have xu: "(6.0227 :: real) \<le> 2 ^ 199" "?B ^ 360 * (1 + 1 / 10 ^ 9) \<le> 6.0227"
    by simp (rule order_trans[OF u1 u2])
  obtain y where y: "calculatePayment pw (JNum (Num (of_int 300000))) (JNum (Num 0)) (JNum (Num 6))
               (JNum (Num (real 360))) = Num y"
    "of_int 300000 * (6 / 1200 * (1 - 1 / 2 ^ 51)) * (1 + 1 / (6.0227 - 1)) * (1 - 1 / 2 ^ 50) \<le> y"
    "y \<le> of_int 300000 * (6 / 1200 * (1 + 1 / 2 ^ 51)) * (1 + 1 / (6.0225 - 1)) * (1 + 1 / 2 ^ 50)"
    using payment_enclosure[OF assms n k R A B xl xu] by blast
  have "1798.64 \<le> y" using y(2) by simp
  moreover have "y \<le> 1798.66" using y(3) by simp
  ultimately have "\<bar>y - 1798.65\<bar> \<le> 0.01" by linarith
  moreover have "calculatePayment pw (JNum (Num 300000)) (JNum (Num 0)) (JNum (Num 6))
      (JNum (Num 360)) = Num y"
    using y(1) by simp
  ultimately show ?thesis by blast
qed


lemma calculatePayment_default_rate:
  assumes "pow_accurate pw"
  shows "\<exists>y. calculatePayment pw (JNum (Num 300000)) (JNum (Num 0)) (JNum (Num 6.5))
      (JNum (Num 360)) = Num y \<and> 1000 \<le> y"
proof -
  let ?A = "201 / 200 :: real" and ?B = "503 / 500 :: real"
  have n: "(0 :: nat) < 360" "(360 :: nat) \<le> 1000" by simp_all
  have k: "(0 :: int) < 300000" "(300000 :: int) < 2 ^ 53" by simp_all
  have R: "(0 :: real) < 6.5" "magnitude_within 100 6.5" by (simp_all add: magnitude_within_def)
  have A: "1 \<le> ?A" "?A \<le> (1 + 6.5 / 1200 * (1 - 1 / 2 ^ 51)) * (1 - 1 / 2 ^ 53)" by simp_all
  have B: "?B \<le> 2" "(1 + 6.5 / 1200 * (1 + 1 / 2 ^ 51)) * (1 + 1 / 2 ^ 53) \<le> ?B" by simp_all
  have a45: "1.25 \<le> ?A ^ 45" by (simp add: power_divide)
  have a90: "1.56 \<le> ?A ^ (2 * 45)" by (rule pow_lower_double[OF a45]) simp_all
  have a180: "2.43 \<le> ?A ^ (2 * (2 * 45))" by (rule pow_lower_double[OF a90]) simp_all
  have "5.9 \<le> ?A ^ (2 * (2 * (2 * 45)))" by (rule pow_lower_double[OF a180]) simp_all
  then have a360: "5.9 \<le> ?A ^ 360" by simp
  have b45: "?B ^ 45 \<le> 1.31" by (simp add: power_divide)
  have b90: "?B ^ (2 * 45) \<le> 1.72" by (rule pow_upper_double[OF b45]) simp_all
  have b180: "?B ^ (2 * (2 * 45)) \<le> 2.96" by (rule pow_upper_double[OF b90]) simp_all
  have "?B ^ (2 * (2 * (2 * 45))) \<le> 8.77" by (rule pow_upper_double[OF b180]) simp_all
  then have b360: "?B ^ 360 \<le> 8.77" by simp
  have l1: "5.9 * (1 - 1 / 10 ^ 9) \<le> ?A ^ 360 * (1 - 1 / 10 ^ 9)"
    using a360 by (intro mult_right_mono) simp_all
  have l2: "(2 :: real) \<le> 5.9 * (1 - 1 / 10 ^ 9)" by simp
  have xl: "(2 :: real) \<le> 2" "2 \<le> ?A ^ 360 * (1 - 1 / 10 ^ 9)"
    by simp (rule order_trans[OF l2 l1])
  have u1: "?B ^ 360 * (1 + 1 / 10 ^ 9) \<le> 8.77 * (1 + 1 / 10 ^ 9)"
    using b360 by (intro mult_right_mono) simp_all
  have u2: "8.77 * (1 + 1 / 10 ^ 9) \<le> (9 :: real)" by simp
  have xu: "(9 :: real) \<le> 2 ^ 199" "?B ^ 360 * (1 + 1 / 10 ^ 9) \<le> 9"
    by simp (rule order_trans[OF u1 u2])
  obtain y where y: "calculatePayment pw (JNum (Num (of_int 300000))) (JNum (Num 0))
               (JNum (Num 6.5)) (JNum (Num (real 360))) = Num y"
    "of_int 300000 * (6.5 / 1200 * (1 - 1 / 2 ^ 51)) * (1 + 1 / (9 - 1)) * (1 - 1 / 2 ^ 50) \<le> y"
    using payment_enclosure[OF assms n k R A B xl xu] by blast
  have "1000 \<le> y" using y(2) by simp
  moreover have "calculatePayment pw (JNum (Num 300000)) (JNum (Num 0)) (JNum (Num 6.5))
      (JNum (Num 360)) = Num y"
    using y(1) by simp
  ultimately show ?thesis by blast
qed

lemma isNaN_iff: "isNaN x \<longleftrightarrow> x = NaN"
  by (cases x) simp_all

lemma is_finite_Num: "is_finite (Num x)"
  by (simp add: is_finite_def)

lemma calculatePayment_accurate:
  assumes "sub64 (ToNumber loan) (ToNumber down) = Num P"
    and "div64 (div64 (ToNumber rate) (Num 100)) (Num 12) = Num r"
    and "Math_pow pw (add64 (Num 1) (Num r)) (ToNumber term) = Num x"
    and "magnitude_within 200 P" and "magnitude_within 200 r"
    and "magnitude_within 200 x" and "magnitude_within 200 (x - 1)"
  shows "\<exists>y. calculatePayment pw loan down rate term = Num y
    \<and> \<bar>y - P * r * x / (x - 1)\<bar> \<le> \<bar>P * r * x / (x - 1)\<bar> / 2 ^ 50"
proof -
  obtain y where y: "div64 (mul64 (mul64 (Num P) (Num r)) (Num x)) (sub64 (Num x) (Num 1)) = Num y"
    "\<bar>y - P * r * x / (x - 1)\<bar> \<le> \<bar>P * r * x / (x - 1)\<bar> / 2 ^ 50"
    using payment_formula_accurate[OF assms(4-7)] by blast
  have "r \<noteq> 0" by (rule magnitude_within_nonzero[OF assms(5)])
  then have nz: "\<not> num_eq (Num r) (Num 0)" by (simp add: num_eq_def)
  have "calculatePayment pw loan down rate term = Num y"
    by (simp add: calculatePayment_def Let_def assms(1-3) nz y(1))
  with y(2) show ?thesis by blast
qed

lemma calculatePayment_zero_rate_accurate:
  assumes "sub64 (Num L) (Num D) = Num P" and "magnitude_within 500 P"
    and "magnitude_within 500 t"
  shows "\<exists>q. calculatePayment pw (JNum (Num L)) (JNum (Num D)) (JNum (Num 0)) (JNum (Num t)) = Num q
    \<and> \<bar>q - P / t\<bar> \<le> \<bar>P / t\<bar> / 2 ^ 53"
proof -
  have m: "magnitude_within 1000 (P / t)"
    using magnitude_within_div[OF assms(2,3)] by simp
  have Pn: "P \<noteq> 0" and tn: "t \<noteq> 0"
    using magnitude_within_nonzero assms(2,3) by blast+
  have "calculatePayment pw (JNum (Num L)) (JNum (Num D)) (JNum (Num 0)) (JNum (Num t))
      = round64 (P / t)"
    unfolding calculatePayment_zero_rate assms(1) by (rule div64_Num[OF Pn tn])
  then show ?thesis using round64_accurate[OF m] by (metis (no_types))
qed

lemma calculatePayment_ToNumber:
  "calculatePayment pw a b c d
     = calculatePayment pw (JNum (ToNumber a)) (JNum (ToNumber b)) (JNum (ToNumber c))
         (JNum (ToNumber d))"
  by (simp add: calculatePayment_def Let_def)

lemmas parser_defs = StringToNumber_def trim_def is_ws_def code_unit_def parse_nondecimal_def
  parse_unsigned_decimal_def parse_mantissa_def parse_exponent_def all_digits_def
  digits_value_def radix_digit_def fin_def js_zero_def js_inf_def rounded_def Let_def

lemma StringToNumber_0: "StringToNumber ''0'' = Num 0"
  by (simp add: parser_defs)

lemma StringToNumber_300000: "StringToNumber ''300000'' = Num 300000"
  using round64_of_int[of 300000] by (simp add: parser_defs)

lemma StringToNumber_minus_2400: "StringToNumber ''-2400'' = Num (- 2400)"
  using round64_of_int[of "- 2400"] by (simp add: parser_defs)

lemma StringToNumber_1e_15: "StringToNumber ''1e-15'' = round64 (1 / 10 ^ 15)"
  by (simp add: parser_defs)

text \<open>
  C1 (amended). With principal \<open>P = loanAmount - downPayment\<close>, monthly rate
  \<open>r = annualRate / 100 / 12\<close> and a term of \<open>n\<close> months, each operation rounded
  to binary64 and the power taken by the engine's \<^verbatim>\<open>Math.pow\<close>: when the computed
  \<open>r\<close> is zero the estimate is the quotient \<open>P / n\<close> as the language computes it,
  within a relative error of \<open>2 ^ - 53\<close> of the exact quotient; otherwise it is
  \<open>P * r * x / (x - 1)\<close> for the computed \<open>P\<close>, \<open>r\<close> and
  \<open>x = Math.pow(1 + r, n)\<close>, within a relative error of \<open>2 ^ - 50\<close> when these and
  \<open>x - 1\<close> have magnitudes between \<open>2 ^ - 200\<close> and \<open>2 ^ 200\<close>. Off the zero-rate
  branch the result is never \<open>NaN\<close>: a \<open>NaN\<close> result of the formula is replaced by
  zero. An infinite result is returned as it is. With annual rate -2400 and term 360,
  where \<open>1 + r = - 1\<close> and the power is 1, the formula divides by zero: the
  estimate is minus infinity for a positive principal, plus infinity for a negative
  one (of a magnitude between \<open>2 ^ - 100\<close> and \<open>2 ^ 100\<close>), and zero (from
  \<open>NaN\<close>) for the principal zero. With an annual rate between \<open>2 ^ - 100\<close> and
  \<open>10 ^ - 13\<close>, such as the typed rate \<^verbatim>\<open>1e-15\<close>, \<open>1 + r\<close> rounds to 1, the
  power of 1 is 1, and the estimate is plus infinity for a positive principal
  between \<open>2 ^ - 100\<close> and \<open>2 ^ 100\<close>. For principal 300000, annual rate 6 and
  term 360 the estimate is within 0.01 of 1798.65, whenever \<^verbatim>\<open>Math.pow\<close> is accurate
  to a relative error of \<open>10 ^ - 9\<close> (\<open>pow_accurate\<close>).
\<close>

theorem calculatePayment_amortization:
  "(num_eq (div64 (div64 (ToNumber rate) (Num 100)) (Num 12)) (Num 0) \<longrightarrow>
      calculatePayment pw loan down rate months
        = div64 (sub64 (ToNumber loan) (ToNumber down)) (ToNumber months))
   \<and> (sub64 (Num L) (Num D) = Num P \<and> magnitude_within 500 P \<and> magnitude_within 500 t \<longrightarrow>
        is_finite (calculatePayment pw (JNum (Num L)) (JNum (Num D)) (JNum (Num 0))
                     (JNum (Num t)))
        \<and> \<bar>val (calculatePayment pw (JNum (Num L)) (JNum (Num D)) (JNum (Num 0))
                   (JNum (Num t))) - P / t\<bar> \<le> \<bar>P / t\<bar> / 2 ^ 53)
   \<and> (\<not> num_eq (div64 (div64 (ToNumber rate) (Num 100)) (Num 12)) (Num 0) \<longrightarrow>
        calculatePayment pw loan down rate months \<noteq> NaN)
   \<and> (sub64 (ToNumber loan) (ToNumber down) = Num P
      \<and> div64 (div64 (ToNumber rate) (Num 100)) (Num 12) = Num r
      \<and> Math_pow pw (add64 (Num 1) (Num r)) (ToNumber months) = Num x
      \<and> magnitude_within 200 P \<and> magnitude_within 200 r
      \<and> magnitude_within 200 x \<and> magnitude_within 200 (x - 1) \<longrightarrow>
        is_finite (calculatePayment pw loan down rate months)
        \<and> \<bar>val (calculatePayment pw loan down rate months) - P * r * x / (x - 1)\<bar>
            \<le> \<bar>P * r * x / (x - 1)\<bar> / 2 ^ 50)
   \<and> (pw (- 1) 360 = Num 1 \<and> magnitude_within 100 L \<longrightarrow>
        calculatePayment pw (JNum (Num L)) (JNum (Num 0)) (JNum (Num (- 2400))) (JNum (Num 360))
          = (if 0 < L then NegInf else PosInf))
   \<and> (pw (- 1) 360 = Num 1 \<longrightarrow>
        calculatePayment pw (JNum (Num 0)) (JNum (Num 0)) (JNum (Num (- 2400))) (JNum (Num 360))
          = Num 0)
   \<and> (pw 1 t = Num 1 \<and> t \<noteq> 0 \<and> 0 < L - D \<and> magnitude_within 100 (L - D)
      \<and> 1 / 2 ^ 100 \<le> R \<and> R \<le> 1 / 10 ^ 13 \<longrightarrow>
        calculatePayment pw (JNum (Num L)) (JNum (Num D)) (JNum (Num R)) (JNum (Num t))
          = PosInf)
   \<and> (pow_accurate pw \<longrightarrow>
        is_finite (calculatePayment pw (JNum (Num 300000)) (JNum (Num 0)) (JNum (Num 6))
                     (JNum (Num 360)))
        \<and> \<bar>val (calculatePayment pw (JNum (Num 300000)) (JNum (Num 0)) (JNum (Num 6))
                   (JNum (Num 360))) - 1798.65\<bar> \<le> 0.01)"
proof (intro conjI impI)
  assume "num_eq (div64 (div64 (ToNumber rate) (Num 100)) (Num 12)) (Num 0)"
  then show "calculatePayment pw loan down rate months
        = div64 (sub64 (ToNumber loan) (ToNumber down)) (ToNumber months)"
    by (simp add: calculatePayment_def Let_def)
next
  assume "sub64 (Num L) (Num D) = Num P \<and> magnitude_within 500 P \<and> magnitude_within 500 t"
  then obtain q where
    "calculatePayment pw (JNum (Num L)) (JNum (Num D)) (JNum (Num 0)) (JNum (Num t)) = Num q"
    "\<bar>q - P / t\<bar> \<le> \<bar>P / t\<bar> / 2 ^ 53"
    using calculatePayment_zero_rate_accurate[of L D P t pw] by blast
  then show "is_finite (calculatePayment pw (JNum (Num L)) (JNum (Num D)) (JNum (Num 0))
                     (JNum (Num t)))"
    and "\<bar>val (calculatePayment pw (JNum (Num L)) (JNum (Num D)) (JNum (Num 0))
                   (JNum (Num t))) - P / t\<bar> \<le> \<bar>P / t\<bar> / 2 ^ 53"
    by (simp_all add: is_finite_Num)
next
  assume "\<not> num_eq (div64 (div64 (ToNumber rate) (Num 100)) (Num 12)) (Num 0)"
  then show "calculatePayment pw loan down rate months \<noteq> NaN"
    by (simp add: calculatePayment_def Let_def isNaN_iff)
next
  assume "sub64 (ToNumber loan) (ToNumber down) = Num P
      \<and> div64 (div64 (ToNumber rate) (Num 100)) (Num 12) = Num r
      \<and> Math_pow pw (add64 (Num 1) (Num r)) (ToNumber months) = Num x
      \<and> magnitude_within 200 P \<and> magnitude_within 200 r
      \<and> magnitude_within 200 x \<and> magnitude_within 200 (x - 1)"
  then obtain y where "calculatePayment pw loan down rate months = Num y"
    "\<bar>y - P * r * x / (x - 1)\<bar> \<le> \<bar>P * r * x / (x - 1)\<bar> / 2 ^ 50"
    using calculatePayment_accurate[of loan down P rate r pw months x] by blast
  then show "is_finite (calculatePayment pw loan down rate months)"
    and "\<bar>val (calculatePayment pw loan down rate months) - P * r * x / (x - 1)\<bar>
            \<le> \<bar>P * r * x / (x - 1)\<bar> / 2 ^ 50"
    by (simp_all add: is_finite_Num)
next
  assume "pw (- 1) 360 = Num 1 \<and> magnitude_within 100 L"
  then show "calculatePayment pw (JNum (Num L)) (JNum (Num 0)) (JNum (Num (- 2400)))
      (JNum (Num 360)) = (if 0 < L then NegInf else PosInf)"
    using calculatePayment_pole[of pw L] by blast
next
  assume "pw (- 1) 360 = Num 1"
  then show "calculatePayment pw (JNum (Num 0)) (JNum (Num 0)) (JNum (Num (- 2400)))
      (JNum (Num 360)) = Num 0"
    by (rule calculatePayment_pole_zero)
next
  assume "pw 1 t = Num 1 \<and> t \<noteq> 0 \<and> 0 < L - D \<and> magnitude_within 100 (L - D)
      \<and> 1 / 2 ^ 100 \<le> R \<and> R \<le> 1 / 10 ^ 13"
  then show "calculatePayment pw (JNum (Num L)) (JNum (Num D)) (JNum (Num R)) (JNum (Num t))
      = PosInf"
    using calculatePayment_absorbed[of pw t L D R] by blast
next
  assume "pow_accurate pw"
  then obtain y where
    "calculatePayment pw (JNum (Num 300000)) (JNum (Num 0)) (JNum (Num 6)) (JNum (Num 360))
       = Num y" "\<bar>y - 1798.65\<bar> \<le> 0.01"
    using calculatePayment_example[of pw] by blast
  then show "is_finite (calculatePayment pw (JNum (Num 300000)) (JNum (Num 0)) (JNum (Num 6))
                     (JNum (Num 360)))"
    and "\<bar>val (calculatePayment pw (JNum (Num 300000)) (JNum (Num 0)) (JNum (Num 6))
                   (JNum (Num 360))) - 1798.65\<bar> \<le> 0.01"
    by (simp_all add: is_finite_Num)
qed


theorem calculatePayment_amortization_witness:
  "num_eq (div64 (div64 (ToNumber (JStr ''0'')) (Num 100)) (Num 12)) (Num 0)
   \<and> calculatePayment pow_correctly_rounded (JNum (Num 1200)) (JNum (Num 0)) (JStr ''0'')
       (JNum (Num 12)) = Num 100
   \<and> sub64 (Num 1200) (Num 0) = Num 1200
   \<and> magnitude_within 500 1200 \<and> magnitude_within 500 12
   \<and> is_finite (calculatePayment pow_correctly_rounded (JNum (Num 1200)) (JNum (Num 0))
        (JNum (Num 0)) (JNum (Num 12)))
   \<and> \<bar>val (calculatePayment pow_correctly_rounded (JNum (Num 1200)) (JNum (Num 0))
        (JNum (Num 0)) (JNum (Num 12))) - 1200 / 12\<bar> \<le> \<bar>1200 / 12\<bar> / 2 ^ 53
   \<and> \<not> num_eq (div64 (div64 (ToNumber (JNum (Num 1200))) (Num 100)) (Num 12)) (Num 0)
   \<and> calculatePayment pow_correctly_rounded (JNum (Num 1200)) (JNum (Num 0)) (JNum (Num 1200))
       (JNum (Num 1)) \<noteq> NaN
   \<and> div64 (div64 (Num 1200) (Num 100)) (Num 12) = Num 1
   \<and> Math_pow pow_correctly_rounded (add64 (Num 1) (Num 1)) (Num 1) = Num 2
   \<and> magnitude_within 200 1200 \<and> magnitude_within 200 1 \<and> magnitude_within 200 2
   \<and> magnitude_within 200 (2 - 1)
   \<and> is_finite (calculatePayment pow_correctly_rounded (JNum (Num 1200)) (JNum (Num 0))
        (JNum (Num 1200)) (JNum (Num 1)))
   \<and> \<bar>val (calculatePayment pow_correctly_rounded (JNum (Num 1200)) (JNum (Num 0))
        (JNum (Num 1200)) (JNum (Num 1))) - 2400\<bar> \<le> 2400 / 2 ^ 50
   \<and> pow_correctly_rounded (- 1) 360 = Num 1
   \<and> magnitude_within 100 (- 200000)
   \<and> calculatePayment pow_correctly_rounded (JNum (Num (- 200000))) (JNum (Num 0))
       (JNum (Num (- 2400))) (JNum (Num 360)) = PosInf
   \<and> calculatePayment pow_correctly_rounded (JNum (Num 0)) (JNum (Num 0))
       (JNum (Num (- 2400))) (JNum (Num 360)) = Num 0
   \<and> pow_correctly_rounded 1 360 = Num 1
   \<and> (0 :: real) < 300000 - 0 \<and> magnitude_within 100 (300000 - 0)
   \<and> (1 :: real) / 2 ^ 100 \<le> 1 / 10 ^ 15 \<and> (1 :: real) / 10 ^ 15 \<le> 1 / 10 ^ 13
   \<and> calculatePayment pow_correctly_rounded (JNum (Num 300000)) (JNum (Num 0))
       (JNum (Num (1 / 10 ^ 15))) (JNum (Num 360)) = PosInf
   \<and> pow_accurate pow_correctly_rounded
   \<and> is_finite (calculatePayment pow_correctly_rounded (JNum (Num 300000)) (JNum (Num 0))
        (JNum (Num 6)) (JNum (Num 360)))
   \<and> \<bar>val (calculatePayment pow_correctly_rounded (JNum (Num 300000)) (JNum (Num 0))
        (JNum (Num 6)) (JNum (Num 360))) - 1798.65\<bar> \<le> 0.01"
proof -
  let ?pw = pow_correctly_rounded
  note c = calculatePayment_amortization[where pw = ?pw]
  note z = StringToNumber_0
  have h1: "num_eq (div64 (div64 (ToNumber (JStr ''0'')) (Num 100)) (Num 12)) (Num 0)"
    by (simp add: z div64_def js_div_def fin_def js_zero_def rounded_def num_eq_def)
  have s: "sub64 (Num 1200) (Num 0) = Num 1200"
    using sub64_Num[of 1200 0] round64_of_int[of 1200] by simp
  have q: "div64 (Num 1200) (Num 12) = Num 100"
    using div64_Num[of 1200 12] round64_of_int[of 100] by simp
  have "calculatePayment ?pw (JNum (Num 1200)) (JNum (Num 0)) (JStr ''0'') (JNum (Num 12))
      = div64 (sub64 (ToNumber (JNum (Num 1200))) (ToNumber (JNum (Num 0))))
          (ToNumber (JNum (Num 12)))"
    by (rule c[THEN conjunct1, THEN mp, OF h1])
  then have w1: "calculatePayment ?pw (JNum (Num 1200)) (JNum (Num 0)) (JStr ''0'')
      (JNum (Num 12)) = Num 100"
    by (simp add: s q)
  have m2: "magnitude_within 500 1200" "magnitude_within 500 12"
    by (simp_all add: magnitude_within_def)
  have h2: "sub64 (Num 1200) (Num 0) = Num 1200 \<and> magnitude_within 500 1200
      \<and> magnitude_within 500 12"
    using s m2 by simp
  note w2 = c[where L = 1200 and D = 0 and P = 1200 and t = 12, THEN conjunct2, THEN conjunct1,
      THEN mp, OF h2]
  have r: "div64 (div64 (Num 1200) (Num 100)) (Num 12) = Num 1"
    using div64_Num[of 1200 100] round64_of_int[of 12] div64_Num[of 12 12] round64_one
    by simp
  have h3: "\<not> num_eq (div64 (div64 (ToNumber (JNum (Num 1200))) (Num 100)) (Num 12)) (Num 0)"
    by (simp add: r num_eq_def)
  note w3 = c[where rate = "JNum (Num 1200)" and loan = "JNum (Num 1200)"
      and down = "JNum (Num 0)" and months = "JNum (Num 1)", THEN conjunct2, THEN conjunct2, THEN conjunct1, THEN mp, OF h3]
  have b: "add64 (Num 1) (Num 1) = Num 2"
    using add64_Num[of 1 1] round64_of_int[of 2] by simp
  have x: "Math_pow ?pw (add64 (Num 1) (Num 1)) (Num 1) = Num 2"
    using Math_pow_finite[of 2 1 ?pw] pow_correctly_rounded_nat[of 2 1] round64_of_int[of 2]
    by (simp add: b)
  have m4: "magnitude_within 200 1200" "magnitude_within 200 1" "magnitude_within 200 2"
    "magnitude_within 200 (2 - 1)"
    by (simp_all add: magnitude_within_def)
  have h4: "sub64 (ToNumber (JNum (Num 1200))) (ToNumber (JNum (Num 0))) = Num 1200
      \<and> div64 (div64 (ToNumber (JNum (Num 1200))) (Num 100)) (Num 12) = Num 1
      \<and> Math_pow ?pw (add64 (Num 1) (Num 1)) (ToNumber (JNum (Num 1))) = Num 2
      \<and> magnitude_within 200 1200 \<and> magnitude_within 200 1
      \<and> magnitude_within 200 2 \<and> magnitude_within 200 (2 - 1)"
    using s r x m4 by simp
  note w4 = c[where rate = "JNum (Num 1200)" and loan = "JNum (Num 1200)"
      and down = "JNum (Num 0)" and months = "JNum (Num 1)" and P = 1200 and r = 1 and x = 2,
      THEN conjunct2, THEN conjunct2, THEN conjunct2, THEN conjunct1, THEN mp, OF h4]
  have w4': "\<bar>val (calculatePayment ?pw (JNum (Num 1200)) (JNum (Num 0))
        (JNum (Num 1200)) (JNum (Num 1))) - 2400\<bar> \<le> 2400 / 2 ^ 50"
    using w4[THEN conjunct2] by simp
  have p1: "?pw (- 1) 360 = Num 1" by (rule pow_correctly_rounded_minus_one)
  have m5: "magnitude_within 100 (- 200000)" by (simp add: magnitude_within_def)
  have h5: "?pw (- 1) 360 = Num 1 \<and> magnitude_within 100 (- 200000)" using p1 m5 by simp
  have w5: "calculatePayment ?pw (JNum (Num (- 200000))) (JNum (Num 0))
       (JNum (Num (- 2400))) (JNum (Num 360)) = PosInf"
    using c[where L = "- 200000", THEN conjunct2, THEN conjunct2, THEN conjunct2, THEN conjunct2, THEN conjunct1, THEN mp, OF h5] by simp
  note w6 = c[THEN conjunct2, THEN conjunct2, THEN conjunct2, THEN conjunct2, THEN conjunct2, THEN conjunct1, THEN mp, OF p1]
  have p2: "?pw 1 360 = Num 1" by (rule pow_correctly_rounded_one)
  have m7: "(0 :: real) < 300000 - 0" "magnitude_within 100 (300000 - 0)"
    "(1 :: real) / 2 ^ 100 \<le> 1 / 10 ^ 15" "(1 :: real) / 10 ^ 15 \<le> 1 / 10 ^ 13"
    by (simp_all add: magnitude_within_def)
  have h7: "?pw 1 360 = Num 1 \<and> (360 :: real) \<noteq> 0 \<and> (0 :: real) < 300000 - 0
      \<and> magnitude_within 100 (300000 - 0)
      \<and> 1 / 2 ^ 100 \<le> (1 / 10 ^ 15 :: real) \<and> (1 / 10 ^ 15 :: real) \<le> 1 / 10 ^ 13"
    using p2 m7 by simp
  note w7 = c[where t = 360 and L = 300000 and D = 0 and R = "1 / 10 ^ 15", THEN conjunct2, THEN conjunct2, THEN conjunct2, THEN conjunct2, THEN conjunct2, THEN conjunct2,
      THEN conjunct1, THEN mp, OF h7]
  have pa: "pow_accurate ?pw" by (rule pow_correctly_rounded_accurate)
  note w8 = c[THEN conjunct2, THEN conjunct2, THEN conjunct2, THEN conjunct2, THEN conjunct2, THEN conjunct2, THEN conjunct2, THEN mp, OF pa]
  show ?thesis
    using h1 w1 s m2 w2 h3 w3 r x m4 w4[THEN conjunct1] w4' p1 m5 w5 w6 p2 m7 w7 pa w8
    by (intro conjI) (simp_all only: simp_thms)
qed

theorem calculatePayment_infinite_counterexample:
  "calculatePayment pow_correctly_rounded (JNum (Num 300000)) (JNum (Num 0))
       (JNum (Num (- 2400))) (JNum (Num 360)) = NegInf
   \<and> LoanForm_payment pow_correctly_rounded
        \<lparr>w_loanAmount = JStr ''300000'', w_downPayment = JUndefined,
         w_interestRate = JStr ''-2400'', w_termMonths = JNum (Num 360)\<rparr> = NegInf
   \<and> LoanForm_payment pow_correctly_rounded
        \<lparr>w_loanAmount = JStr ''300000'', w_downPayment = JUndefined,
         w_interestRate = JStr ''1e-15'', w_termMonths = JNum (Num 360)\<rparr> = PosInf"
proof -
  let ?pw = pow_correctly_rounded
  have m: "magnitude_within 100 300000" by (simp add: magnitude_within_def)
  have a: "calculatePayment ?pw (JNum (Num 300000)) (JNum (Num 0)) (JNum (Num (- 2400)))
      (JNum (Num 360)) = NegInf"
    using calculatePayment_pole[where pw = ?pw and L = 300000, OF pow_correctly_rounded_minus_one m]
    by simp
  note n = StringToNumber_300000 StringToNumber_minus_2400
  have b: "LoanForm_payment ?pw \<lparr>w_loanAmount = JStr ''300000'', w_downPayment = JUndefined,
        w_interestRate = JStr ''-2400'', w_termMonths = JNum (Num 360)\<rparr>
      = calculatePayment ?pw (JNum (Num 300000)) (JNum (Num 0)) (JNum (Num (- 2400)))
          (JNum (Num 360))"
    by (simp add: LoanForm_payment_def js_or_def calculatePayment_def n)
  have m15: "magnitude_within 1000 (1 / 10 ^ 15)" by (simp add: magnitude_within_def)
  define v where "v = val (round64 (1 / 10 ^ 15))"
  have v: "round64 (1 / 10 ^ 15) = Num v" "\<bar>v - 1 / 10 ^ 15\<bar> \<le> \<bar>1 / 10 ^ 15\<bar> / 2 ^ 53"
    using round64_accurate[OF m15] by (simp_all add: v_def)
  have "\<bar>1 / 10 ^ 15 :: real\<bar> / 2 ^ 53 \<le> 1 / 10 ^ 16" by simp
  with v(2) have "1 / 10 ^ 15 - 1 / 10 ^ 16 \<le> v" and "v \<le> 1 / 10 ^ 15 + 1 / 10 ^ 16"
    by linarith+
  moreover have "(1 :: real) / 2 ^ 100 \<le> 1 / 10 ^ 15 - 1 / 10 ^ 16"
    and "(1 :: real) / 10 ^ 15 + 1 / 10 ^ 16 \<le> 1 / 10 ^ 13" by simp_all
  ultimately have vr: "1 / 2 ^ 100 \<le> v" "v \<le> 1 / 10 ^ 13" by linarith+
  have h: "(360 :: real) \<noteq> 0" "(0 :: real) < 300000 - 0" "magnitude_within 100 (300000 - 0)"
    by (simp_all add: magnitude_within_def)
  have c: "calculatePayment ?pw (JNum (Num 300000)) (JNum (Num 0)) (JNum (Num v))
      (JNum (Num 360)) = PosInf"
    by (rule calculatePayment_absorbed[where pw = ?pw and t = 360 and L = 300000 and D = 0
          and R = v, OF pow_correctly_rounded_one h vr])
  have sv: "StringToNumber ''1e-15'' = Num v"
    unfolding StringToNumber_1e_15 by (rule v(1))
  have "LoanForm_payment ?pw \<lparr>w_loanAmount = JStr ''300000'', w_downPayment = JUndefined,
        w_interestRate = JStr ''1e-15'', w_termMonths = JNum (Num 360)\<rparr>
      = calculatePayment ?pw (JStr ''300000'') (JNum (Num 0)) (JStr ''1e-15'') (JNum (Num 360))"
    by (simp add: LoanForm_payment_def js_or_def)
  also have "\<dots> = calculatePayment ?pw (JNum (Num 300000)) (JNum (Num 0)) (JNum (Num v))
      (JNum (Num 360))"
    using calculatePayment_ToNumber[of ?pw "JStr ''300000''" "JNum (Num 0)" "JStr ''1e-15''"
        "JNum (Num 360)"]
    by (simp add: StringToNumber_300000 sv)
  finally have d: "LoanForm_payment ?pw \<lparr>w_loanAmount = JStr ''300000'',
        w_downPayment = JUndefined, w_interestRate = JStr ''1e-15'',
        w_termMonths = JNum (Num 360)\<rparr> = PosInf"
    using c by simp
  show ?thesis using a b d by (simp only: simp_thms)
qed


section \<open>The watched values and their defaults\<close>

lemma not_ToBoolean_iff:
  "\<not> ToBoolean v \<longleftrightarrow>
     v \<in> {JUndefined, JNull, JBool False, JNum (Num 0), JNum NegZero, JNum NaN, JStr []}"
proof (cases v)
  case (JNum n)
  then show ?thesis by (cases n) auto
qed auto

text \<open>
  C10 (amended). Before the computation every watched input that is falsy is
  replaced by a fixed default: the loan amount and the down payment by 0, the term
  by 360, the interest rate by 6.5. The falsy values are \<^verbatim>\<open>undefined\<close>,
  \<^verbatim>\<open>null\<close>, \<^verbatim>\<open>false\<close>, the numbers 0, -0 and \<open>NaN\<close>, and the empty string. So a
  watched interest rate that is absent or is the number 0 is computed with annual
  rate 6.5. A watched interest rate that is the string \<^verbatim>\<open>'0'\<close>, the text of the
  field once the user has typed 0 into it, is truthy and is used as it is: the
  estimate is then principal / term, by the zero-rate branch.
\<close>

theorem LoanForm_payment_defaults:
  "LoanForm_payment pw w =
     calculatePayment pw
       (if ToBoolean (w_loanAmount w) then w_loanAmount w else JNum (Num 0))
       (if ToBoolean (w_downPayment w) then w_downPayment w else JNum (Num 0))
       (if ToBoolean (w_interestRate w) then w_interestRate w else JNum (Num 6.5))
       (if ToBoolean (w_termMonths w) then w_termMonths w else JNum (Num 360))
   \<and> (\<not> ToBoolean v \<longleftrightarrow>
        v \<in> {JUndefined, JNull, JBool False, JNum (Num 0), JNum NegZero, JNum NaN, JStr []})
   \<and> (\<not> ToBoolean (w_interestRate w) \<longrightarrow>
        LoanForm_payment pw w = LoanForm_payment pw (w\<lparr>w_interestRate := JNum (Num 6.5)\<rparr>))
   \<and> LoanForm_payment pw (w\<lparr>w_interestRate := JNum (Num 0)\<rparr>)
        = LoanForm_payment pw (w\<lparr>w_interestRate := JNum (Num 6.5)\<rparr>)
   \<and> LoanForm_payment pw (w\<lparr>w_interestRate := JStr ''0''\<rparr>)
        = div64 (sub64 (ToNumber (js_or (w_loanAmount w) (JNum (Num 0))))
                       (ToNumber (js_or (w_downPayment w) (JNum (Num 0)))))
                (ToNumber (js_or (w_termMonths w) (JNum (Num 360))))"
proof (intro conjI impI)
  show "LoanForm_payment pw w =
     calculatePayment pw
       (if ToBoolean (w_loanAmount w) then w_loanAmount w else JNum (Num 0))
       (if ToBoolean (w_downPayment w) then w_downPayment w else JNum (Num 0))
       (if ToBoolean (w_interestRate w) then w_interestRate w else JNum (Num 6.5))
       (if ToBoolean (w_termMonths w) then w_termMonths w else JNum (Num 360))"
    by (simp add: LoanForm_payment_def js_or_def)
  show "\<not> ToBoolean v \<longleftrightarrow>
        v \<in> {JUndefined, JNull, JBool False, JNum (Num 0), JNum NegZero, JNum NaN, JStr []}"
    by (rule not_ToBoolean_iff)
  show "LoanForm_payment pw w = LoanForm_payment pw (w\<lparr>w_interestRate := JNum (Num 6.5)\<rparr>)"
    if "\<not> ToBoolean (w_interestRate w)"
    using that by (simp add: LoanForm_payment_def js_or_def)
  show "LoanForm_payment pw (w\<lparr>w_interestRate := JNum (Num 0)\<rparr>)
        = LoanForm_payment pw (w\<lparr>w_interestRate := JNum (Num 6.5)\<rparr>)"
    by (simp add: LoanForm_payment_def js_or_def)
  note z = StringToNumber_0
  have m: "div64 (div64 (Num 0) (Num 100)) (Num 12) = Num 0"
    by (simp add: div64_def js_div_def fin_def js_zero_def rounded_def)
  show "LoanForm_payment pw (w\<lparr>w_interestRate := JStr ''0''\<rparr>)
        = div64 (sub64 (ToNumber (js_or (w_loanAmount w) (JNum (Num 0))))
                       (ToNumber (js_or (w_downPayment w) (JNum (Num 0)))))
                (ToNumber (js_or (w_termMonths w) (JNum (Num 360))))"
    by (simp add: LoanForm_payment_def calculatePayment_def Let_def z m num_eq_def
        js_or_def[of "JStr ''0''"])
qed

theorem LoanForm_payment_defaults_witness:
  "\<not> ToBoolean (w_interestRate \<lparr>w_loanAmount = JStr ''300000'', w_downPayment = JStr [],
        w_interestRate = JUndefined, w_termMonths = JNum (Num 360)\<rparr>)
   \<and> LoanForm_payment pow_correctly_rounded
        \<lparr>w_loanAmount = JStr ''300000'', w_downPayment = JStr [],
         w_interestRate = JUndefined, w_termMonths = JNum (Num 360)\<rparr>
     = LoanForm_payment pow_correctly_rounded
        \<lparr>w_loanAmount = JStr ''300000'', w_downPayment = JStr [],
         w_interestRate = JNum (Num 6.5), w_termMonths = JNum (Num 360)\<rparr>"
proof -
  let ?w = "\<lparr>w_loanAmount = JStr ''300000'', w_downPayment = JStr [],
        w_interestRate = JUndefined, w_termMonths = JNum (Num 360)\<rparr>"
  have h: "\<not> ToBoolean (w_interestRate ?w)" by simp
  have "LoanForm_payment pow_correctly_rounded ?w
      = LoanForm_payment pow_correctly_rounded (?w\<lparr>w_interestRate := JNum (Num 6.5)\<rparr>)"
    by (rule LoanForm_payment_defaults[where pw = pow_correctly_rounded and w = ?w,
          THEN conjunct2, THEN conjunct2, THEN conjunct1, THEN mp, OF h])
  with h show ?thesis by simp
qed

theorem LoanForm_payment_zero_rate_counterexample:
  "LoanForm_payment pow_correctly_rounded
        \<lparr>w_loanAmount = JStr ''300000'', w_downPayment = JUndefined,
         w_interestRate = JStr ''0'', w_termMonths = JNum (Num 360)\<rparr> = round64 (2500 / 3)
   \<and> LoanForm_payment pow_correctly_rounded
        \<lparr>w_loanAmount = JStr ''300000'', w_downPayment = JUndefined,
         w_interestRate = JNum (Num 6.5), w_termMonths = JNum (Num 360)\<rparr> \<noteq> round64 (2500 / 3)"
proof -
  let ?pw = pow_correctly_rounded
  note n = StringToNumber_300000 StringToNumber_0
  have s: "sub64 (Num 300000) (Num 0) = Num 300000"
    using sub64_Num[of 300000 0] round64_of_int[of 300000] by simp
  have "LoanForm_payment ?pw \<lparr>w_loanAmount = JStr ''300000'', w_downPayment = JUndefined,
        w_interestRate = JStr ''0'', w_termMonths = JNum (Num 360)\<rparr>
      = calculatePayment ?pw (JStr ''300000'') (JNum (Num 0)) (JStr ''0'') (JNum (Num 360))"
    by (simp add: LoanForm_payment_def js_or_def)
  also have "\<dots> = calculatePayment ?pw (JNum (Num 300000)) (JNum (Num 0)) (JNum (Num 0))
      (JNum (Num 360))"
    using calculatePayment_ToNumber[of ?pw "JStr ''300000''" "JNum (Num 0)" "JStr ''0''"
        "JNum (Num 360)"]
    by (simp add: n)
  also have "\<dots> = div64 (sub64 (Num 300000) (Num 0)) (Num 360)"
    by (rule calculatePayment_zero_rate)
  also have "\<dots> = round64 (2500 / 3)"
    using div64_Num[of 300000 360] by (simp add: s)
  finally have a: "LoanForm_payment ?pw \<lparr>w_loanAmount = JStr ''300000'',
        w_downPayment = JUndefined, w_interestRate = JStr ''0'',
        w_termMonths = JNum (Num 360)\<rparr> = round64 (2500 / 3)" .
  have m: "magnitude_within 1000 (2500 / 3)" by (simp add: magnitude_within_def)
  define z where "z = val (round64 (2500 / 3))"
  have z: "round64 (2500 / 3) = Num z" "\<bar>z - 2500 / 3\<bar> \<le> \<bar>2500 / 3\<bar> / 2 ^ 53"
    using round64_accurate[OF m] by (simp_all add: z_def)
  have "\<bar>2500 / 3 :: real\<bar> / 2 ^ 53 \<le> 1" by simp
  with z(2) have zu: "z < 1000" by linarith
  obtain y where y: "calculatePayment ?pw (JNum (Num 300000)) (JNum (Num 0)) (JNum (Num 6.5))
      (JNum (Num 360)) = Num y" "1000 \<le> y"
    using calculatePayment_default_rate[OF pow_correctly_rounded_accurate] by blast
  have "Num y \<noteq> Num z" using zu y(2) by simp
  then have "calculatePayment ?pw (JNum (Num 300000)) (JNum (Num 0)) (JNum (Num 6.5))
      (JNum (Num 360)) \<noteq> round64 (2500 / 3)"
    unfolding y(1) z(1) .
  moreover have "LoanForm_payment ?pw \<lparr>w_loanAmount = JStr ''300000'',
        w_downPayment = JUndefined, w_interestRate = JNum (Num 6.5),
        w_termMonths = JNum (Num 360)\<rparr>
      = calculatePayment ?pw (JNum (Num 300000)) (JNum (Num 0)) (JNum (Num 6.5))
            (JNum (Num 360))"
    using calculatePayment_ToNumber[of ?pw "JStr ''300000''" "JNum (Num 0)" "JNum (Num 6.5)"
        "JNum (Num 360)"]
    by (simp add: LoanForm_payment_def js_or_def n)
  ultimately show ?thesis using a by (simp only: simp_thms)
qed

end
